theory Spec2Isabelle
  imports
    Main
    "HOL-Library.Word"
    "HOL-Library.Char_ord"
    "HOL-Library.List_Lexorder"
    "HOL-Library.Multiset"
begin

unbundle bit_operations_syntax

section \<open>Strings, UTF-8 and MD5\<close>

text \<open>
  A Python \<^verbatim>\<open>str\<close> is modelled as a \<^typ>\<open>string\<close>: a list of characters with code
  points 0 to 255. Strings are compared as Python compares them (lexicographically, by
  code point), which is the order of \<^theory_text>\<open>Char_ord\<close> and \<^theory_text>\<open>List_Lexorder\<close>.

  \<^verbatim>\<open>text.encode("utf-8")\<close>: a code point below 128 is one byte, one from 128 to 255 is
  the two bytes \<open>110xxxxx 10xxxxxx\<close>.
\<close>

type_synonym byte = "8 word"
type_synonym u32 = "32 word"

definition utf8_char :: "char \<Rightarrow> byte list" where
  "utf8_char c =
     (let n = (of_char c :: nat)
      in if n < 128 then [of_nat n]
         else [of_nat (192 + n div 64), of_nat (128 + n mod 64)])"

definition encode_utf8 :: "string \<Rightarrow> byte list" where
  "encode_utf8 s = concat (map utf8_char s)"

text \<open>
  \<^verbatim>\<open>hashlib.md5(...).hexdigest()\<close> is the MD5 message digest (RFC 1321) in lower-case
  hexadecimal: the message is padded with the byte 0x80, zero bytes up to 56 modulo 64,
  and its length in bits as a little-endian 64-bit number; each block of 64 bytes is
  read as sixteen little-endian 32-bit words and run through 64 rounds.
\<close>

definition le_bytes :: "nat \<Rightarrow> 'a::len word \<Rightarrow> byte list" where
  "le_bytes n w = map (\<lambda>i. ucast (drop_bit (8 * i) w)) [0..<n]"

definition le_word :: "byte list \<Rightarrow> u32" where
  "le_word bs = foldr (\<lambda>b w. ucast b OR push_bit 8 w) bs 0"

fun chunks :: "nat \<Rightarrow> nat \<Rightarrow> 'a list \<Rightarrow> 'a list list" where
  "chunks 0 n xs = []"
| "chunks (Suc k) n xs = take n xs # chunks k n (drop n xs)"

definition md5_pad :: "byte list \<Rightarrow> byte list" where
  "md5_pad m =
     m @ [0x80] @ replicate ((119 - length m mod 64) mod 64) 0
       @ le_bytes 8 (of_nat (8 * length m) :: 64 word)"

definition md5_s :: "nat list" where
  "md5_s = concat (map (\<lambda>r. concat (replicate 4 r))
     [[7, 12, 17, 22], [5, 9, 14, 20], [4, 11, 16, 23], [6, 10, 15, 21]])"

definition md5_K :: "u32 list" where
  "md5_K =
    [0xd76aa478, 0xe8c7b756, 0x242070db, 0xc1bdceee,
     0xf57c0faf, 0x4787c62a, 0xa8304613, 0xfd469501,
     0x698098d8, 0x8b44f7af, 0xffff5bb1, 0x895cd7be,
     0x6b901122, 0xfd987193, 0xa679438e, 0x49b40821,
     0xf61e2562, 0xc040b340, 0x265e5a51, 0xe9b6c7aa,
     0xd62f105d, 0x02441453, 0xd8a1e681, 0xe7d3fbc8,
     0x21e1cde6, 0xc33707d6, 0xf4d50d87, 0x455a14ed,
     0xa9e3e905, 0xfcefa3f8, 0x676f02d9, 0x8d2a4c8a,
     0xfffa3942, 0x8771f681, 0x6d9d6122, 0xfde5380c,
     0xa4beea44, 0x4bdecfa9, 0xf6bb4b60, 0xbebfbc70,
     0x289b7ec6, 0xeaa127fa, 0xd4ef3085, 0x04881d05,
     0xd9d4d039, 0xe6db99e5, 0x1fa27cf8, 0xc4ac5665,
     0xf4292244, 0x432aff97, 0xab9423a7, 0xfc93a039,
     0x655b59c3, 0x8f0ccc92, 0xffeff47d, 0x85845dd1,
     0x6fa87e4f, 0xfe2ce6e0, 0xa3014314, 0x4e0811a1,
     0xf7537e82, 0xbd3af235, 0x2ad7d2bb, 0xeb86d391]"

type_synonym md5_state = "u32 \<times> u32 \<times> u32 \<times> u32"

definition md5_round :: "u32 list \<Rightarrow> nat \<Rightarrow> md5_state \<Rightarrow> md5_state" where
  "md5_round M i st =
     (case st of (a, b, c, d) \<Rightarrow>
        let (f, g) =
              (if i < 16 then ((b AND c) OR (NOT b AND d), i)
               else if i < 32 then ((d AND b) OR (NOT d AND c), (5 * i + 1) mod 16)
               else if i < 48 then (b XOR c XOR d, (3 * i + 5) mod 16)
               else (c XOR (b OR NOT d), (7 * i) mod 16))
        in (d, b + word_rotl (md5_s ! i) (a + f + md5_K ! i + M ! g), b, c))"

definition md5_block :: "byte list \<Rightarrow> md5_state \<Rightarrow> md5_state" where
  "md5_block blk st =
     (case st of (a0, b0, c0, d0) \<Rightarrow>
        case fold (md5_round (map le_word (chunks 16 4 blk))) [0..<64] st of
          (a, b, c, d) \<Rightarrow> (a0 + a, b0 + b, c0 + c, d0 + d))"

definition md5_init :: md5_state where
  "md5_init = (0x67452301, 0xefcdab89, 0x98badcfe, 0x10325476)"

definition md5_digest :: "byte list \<Rightarrow> byte list" where
  "md5_digest m =
     (let p = md5_pad m
      in case fold md5_block (chunks (length p div 64) 64 p) md5_init of
           (a, b, c, d) \<Rightarrow> le_bytes 4 a @ le_bytes 4 b @ le_bytes 4 c @ le_bytes 4 d)"

definition hex_digit :: "nat \<Rightarrow> char" where
  "hex_digit n = ''0123456789abcdef'' ! (n mod 16)"

definition hex_byte :: "byte \<Rightarrow> string" where
  "hex_byte b = [hex_digit (unat b div 16), hex_digit (unat b mod 16)]"

definition hexdigest :: "byte list \<Rightarrow> string" where
  "hexdigest bs = concat (map hex_byte bs)"

text \<open>\<^verbatim>\<open>hashlib.md5(text.encode("utf-8")).hexdigest()\<close>, as both hash store methods compute it.\<close>

definition md5_hexdigest :: "string \<Rightarrow> string" where
  "md5_hexdigest s = hexdigest (md5_digest (encode_utf8 s))"


section \<open>The hash store record\<close>

text \<open>
  A \<^verbatim>\<open>datetime\<close> is a number (of microseconds). \<^verbatim>\<open>datetime.datetime.utcnow()\<close> reads
  a clock: the clock is the sequence of its readings and the number of readings taken
  so far, so that two calls in a row may return different times.
\<close>

type_synonym datetime = nat

record clock =
  now :: "nat \<Rightarrow> datetime"
  ticks :: nat

definition utcnow :: "clock \<Rightarrow> datetime \<times> clock" where
  "utcnow c = (now c (ticks c), c\<lparr>ticks := Suc (ticks c)\<rparr>)"

text \<open>One entry of \<^verbatim>\<open>hashes["files"]\<close>: the dictionary with these four keys.\<close>

record file_attrs =
  file_name :: string
  file_hash :: string
  deploy_date :: datetime
  create_date :: datetime

text \<open>
  The dictionary \<^verbatim>\<open>hashes\<close>: the document of the collection. Its key
  \<^verbatim>\<open>create_date\<close> is the field \<open>doc_create_date\<close> (the name \<open>create_date\<close> is the
  entry's), its key \<^verbatim>\<open>_id\<close> is the field \<open>oid\<close>, absent (\<open>None\<close>) in a record that
  was never stored. The type of the elements of \<^verbatim>\<open>files\<close> is a parameter: a stored
  document holds the entries themselves, the record in memory holds references to
  the entry objects.
\<close>

record 'f hashes_doc =
  project_name :: string
  repo_name :: string
  google_project_id :: string
  doc_create_date :: datetime
  update_date :: datetime
  files :: "'f list"
  oid :: "nat option"

text \<open>The same record with another list under \<^verbatim>\<open>files\<close>.\<close>

definition with_files :: "'a hashes_doc \<Rightarrow> 'b list \<Rightarrow> 'b hashes_doc" where
  "with_files d fs =
     \<lparr>project_name = project_name d, repo_name = repo_name d,
      google_project_id = google_project_id d, doc_create_date = doc_create_date d,
      update_date = update_date d, files = fs, oid = oid d\<rparr>"

text \<open>
  An object of class \<^verbatim>\<open>ProjectRepoHashes\<close>. The entries of \<^verbatim>\<open>hashes["files"]\<close> are
  dictionaries that \<^verbatim>\<open>filesdict\<close> shares with the list: \<^verbatim>\<open>update_saved_hash\<close> writes
  to an entry through \<^verbatim>\<open>filesdict\<close> and \<^verbatim>\<open>save\<close> reads it through the list. So the
  entries live in a heap, and both the list and \<^verbatim>\<open>filesdict\<close> hold references.
\<close>

type_synonym ref = nat

record hash_store =
  hash_store_user :: string
  hash_store_password :: string
  self_project_name :: string
  self_repo_name :: string
  self_google_project_id :: string
  hashes :: "ref hashes_doc"
  heap :: "ref \<Rightarrow> file_attrs"
  filesdict :: "string \<rightharpoonup> ref"

text \<open>A reference that the list does not hold yet: the address of a new object.\<close>

definition new_ref :: "ref list \<Rightarrow> ref" where
  "new_ref rs = Suc (fold max rs 0)"

text \<open>What \<^verbatim>\<open>save\<close> writes: the record with each entry's current contents.\<close>

definition snapshot :: "hash_store \<Rightarrow> file_attrs hashes_doc" where
  "snapshot hs = with_files (hashes hs) (map (heap hs) (files (hashes hs)))"


section \<open>The world outside the program\<close>

text \<open>
  No handler is configured, so the \<^verbatim>\<open>logging\<close> module prints the records of level
  WARNING and above only: the log of the model holds those, each with its format
  string and arguments. The calls at level INFO and DEBUG have no effect and are left
  out.
\<close>

datatype level = WARNING | ERROR

datatype logarg = ArgS string | ArgI int

type_synonym log_record = "level \<times> string \<times> logarg list"

text \<open>
  \<^verbatim>\<open>subprocess.run\<close> either completes, with a return code and the captured standard
  output and error, or cannot start the command and raises \<^verbatim>\<open>OSError\<close>.
\<close>

datatype proc = Completed int string string | NotStarted string

datatype exn =
    KeyError string
  | IndexError
  | OSError string
  | CalledProcessError int string string

text \<open>
  How the process ends: the function returns (exit status 0), \<^verbatim>\<open>sys.exit(n)\<close>, or an
  exception nobody catches (the interpreter prints it and exits with status 1).
\<close>

datatype outcome = Returned | SysExit int | Uncaught exn

fun exit_status :: "outcome \<Rightarrow> int" where
  "exit_status Returned = 0"
| "exit_status (SysExit n) = n"
| "exit_status (Uncaught e) = 1"

text \<open>
  The world: the environment variables, the collection \<^verbatim>\<open>bigQueryDeployHash\<close> (its
  documents in their natural order, and the next fresh \<^verbatim>\<open>_id\<close>), the file system
  (\<^verbatim>\<open>os.listdir\<close>, \<^verbatim>\<open>os.path.isfile\<close> and reading a file, \<open>Inl\<close> for an \<^verbatim>\<open>OSError\<close> with
  its message), the \<^verbatim>\<open>bq\<close> command (its result may depend on how many commands ran
  before, on the command line and on the standard input), the commands run so far,
  the clock and the log. The collection is taken to be reachable: a failing
  connection is not modelled.
\<close>

record world =
  environ :: "string \<rightharpoonup> string"
  collection :: "file_attrs hashes_doc list"
  next_oid :: nat
  listdir :: "string \<Rightarrow> string + string list"
  isfile :: "string \<Rightarrow> bool"
  read_text :: "string \<Rightarrow> string + string"
  bq :: "nat \<Rightarrow> string list \<Rightarrow> string \<Rightarrow> proc"
  executed :: "(string list \<times> string) list"
  clk :: clock
  logged :: "log_record list"

definition logging :: "level \<Rightarrow> string \<Rightarrow> logarg list \<Rightarrow> world \<Rightarrow> world" where
  "logging lv fmt args w = w\<lparr>logged := logged w @ [(lv, fmt, args)]\<rparr>"


section \<open>class ProjectRepoHashes\<close>

text \<open>\<^verbatim>\<open>_get_hashes\<close>: \<^verbatim>\<open>find_one\<close> returns the first document that matches the filter.\<close>

definition get_hashes ::
  "file_attrs hashes_doc list \<Rightarrow> string \<Rightarrow> string \<Rightarrow> string \<Rightarrow> file_attrs hashes_doc option" where
  "get_hashes coll pn rn gp =
     find (\<lambda>d. project_name d = pn \<and> repo_name d = rn \<and> google_project_id d = gp) coll"

text \<open>
  \<^verbatim>\<open>dict((f["file_name"], f) for f in self.hashes["files"])\<close>: a later entry of the same
  name replaces an earlier one.
\<close>

definition make_filesdict :: "(ref \<Rightarrow> file_attrs) \<Rightarrow> ref list \<Rightarrow> (string \<rightharpoonup> ref)" where
  "make_filesdict h rs = fold (\<lambda>r m. m(file_name (h r) \<mapsto> r)) rs Map.empty"

text \<open>
  \<^verbatim>\<open>__init__\<close>. The entries of a stored document become the objects at the references
  \<open>0, 1, ...\<close> in the order of the list; a new record has no entry objects. The heap
  is only ever read at a reference that the list or \<^verbatim>\<open>filesdict\<close> holds.
\<close>

definition ProjectRepoHashes_init ::
  "world \<Rightarrow> string \<Rightarrow> string \<Rightarrow> string \<Rightarrow> string \<Rightarrow> string \<Rightarrow> hash_store \<times> world" where
  "ProjectRepoHashes_init w pn rn gp user password =
     (case get_hashes (collection w) pn rn gp of
        None \<Rightarrow>
          let w1 = logging WARNING
                     ''No hash store exists for project %s repo %s google project %s.''
                     [ArgS pn, ArgS rn, ArgS gp] w;
              w2 = logging WARNING ''Creating a new hash store.'' [] w1;
              (t0, c1) = utcnow (clk w2);
              (t1, c2) = utcnow c1
          in (\<lparr>hash_store_user = user, hash_store_password = password,
               self_project_name = pn, self_repo_name = rn, self_google_project_id = gp,
               hashes = \<lparr>project_name = pn, repo_name = rn, google_project_id = gp,
                         doc_create_date = t0, update_date = t1, files = [], oid = None\<rparr>,
               heap = nth [], filesdict = Map.empty\<rparr>,
              w2\<lparr>clk := c2\<rparr>)
      | Some d \<Rightarrow>
          let (t, c1) = utcnow (clk w);
              rs = [0..<length (files d)]
          in (\<lparr>hash_store_user = user, hash_store_password = password,
               self_project_name = pn, self_repo_name = rn, self_google_project_id = gp,
               hashes = (with_files d rs)\<lparr>update_date := t\<rparr>,
               heap = nth (files d), filesdict = make_filesdict (nth (files d)) rs\<rparr>,
              w\<lparr>clk := c1\<rparr>))"

definition get_file_hash :: "hash_store \<Rightarrow> string \<Rightarrow> string" where
  "get_file_hash hs name =
     (case filesdict hs name of
        Some r \<Rightarrow> file_hash (heap hs r)
      | None \<Rightarrow> [])"

definition matches_saved_hash :: "hash_store \<Rightarrow> string \<Rightarrow> string \<Rightarrow> bool" where
  "matches_saved_hash hs name txt =
     (let new_hash = md5_hexdigest txt;
          old_hash = get_file_hash hs name
      in if new_hash = old_hash then True else False)"

definition update_saved_hash ::
  "hash_store \<Rightarrow> string \<Rightarrow> string \<Rightarrow> clock \<Rightarrow> hash_store \<times> clock" where
  "update_saved_hash hs name txt c =
     (let fhash = md5_hexdigest txt
      in case filesdict hs name of
           Some r \<Rightarrow>
             let (t, c1) = utcnow c
             in (hs\<lparr>heap := (heap hs)(r := (heap hs r)\<lparr>file_hash := fhash, deploy_date := t\<rparr>)\<rparr>,
                 c1)
         | None \<Rightarrow>
             let (t1, c1) = utcnow c;
                 (t2, c2) = utcnow c1;
                 new_hash = \<lparr>file_name = name, file_hash = fhash,
                             deploy_date = t1, create_date = t2\<rparr>;
                 r = new_ref (files (hashes hs))
             in (hs\<lparr>hashes := (hashes hs)\<lparr>files := files (hashes hs) @ [r]\<rparr>,
                    heap := (heap hs)(r := new_hash),
                    filesdict := (filesdict hs)(name \<mapsto> r)\<rparr>,
                 c2))"

text \<open>
  \<^verbatim>\<open>replace_one({"_id": i}, d)\<close> replaces the first document with that \<^verbatim>\<open>_id\<close>, and
  nothing when there is none. \<^verbatim>\<open>insert_one(d)\<close> gives the document a fresh \<^verbatim>\<open>_id\<close>,
  stores it and writes the \<^verbatim>\<open>_id\<close> into the dictionary it was given.
\<close>

fun replace_one ::
  "nat \<Rightarrow> file_attrs hashes_doc \<Rightarrow> file_attrs hashes_doc list \<Rightarrow> file_attrs hashes_doc list" where
  "replace_one i d [] = []"
| "replace_one i d (x # xs) = (if oid x = Some i then d # xs else x # replace_one i d xs)"

definition save :: "hash_store \<Rightarrow> world \<Rightarrow> hash_store \<times> world" where
  "save hs w =
     (case oid (hashes hs) of
        Some i \<Rightarrow> (hs, w\<lparr>collection := replace_one i (snapshot hs) (collection w)\<rparr>)
      | None \<Rightarrow>
          let i = next_oid w;
              hs1 = hs\<lparr>hashes := (hashes hs)\<lparr>oid := Some i\<rparr>\<rparr>
          in (hs1, w\<lparr>collection := collection w @ [snapshot hs1], next_oid := Suc i\<rparr>))"


section \<open>The deployment\<close>

definition get_sql :: "world \<Rightarrow> string \<Rightarrow> string + string" where
  "get_sql w sql_file = read_text w sql_file"

definition bq_cmd :: "string \<Rightarrow> string list" where
  "bq_cmd gp = [''bq'', ''query'', ''--use_legacy_sql=false'', ''--project_id='' @ gp]"

text \<open>\<^verbatim>\<open>execute_sql\<close>: with \<^verbatim>\<open>check=True\<close> a return code other than 0 raises.\<close>

definition execute_sql :: "world \<Rightarrow> string \<Rightarrow> string \<Rightarrow> (exn + unit) \<times> world" where
  "execute_sql w sql gp =
     (let w1 = w\<lparr>executed := executed w @ [(bq_cmd gp, sql)]\<rparr>
      in case bq w (length (executed w)) (bq_cmd gp) sql of
           NotStarted msg \<Rightarrow> (Inl (OSError msg), w1)
         | Completed rc out err \<Rightarrow>
             if rc \<noteq> 0 then (Inl (CalledProcessError rc out err), w1) else (Inr (), w1))"

definition endswith :: "string \<Rightarrow> string \<Rightarrow> bool" where
  "endswith s suf = (length suf \<le> length s \<and> drop (length s - length suf) s = suf)"

text \<open>\<^verbatim>\<open>os.path.join(a, b)\<close> of \<^verbatim>\<open>posixpath\<close>, for two components.\<close>

definition path_join :: "string \<Rightarrow> string \<Rightarrow> string" where
  "path_join a b =
     (if b \<noteq> [] \<and> hd b = CHR ''/'' then b
      else if a = [] \<or> last a = CHR ''/'' then a @ b
      else a @ ''/'' @ b)"

definition find_ddl_files :: "world \<Rightarrow> string \<Rightarrow> string list \<times> world" where
  "find_ddl_files w path =
     (case listdir w path of
        Inl strerror \<Rightarrow>
          ([], logging ERROR ''Error listing DDL directory %s: %s'' [ArgS path, ArgS strerror] w)
      | Inr entries \<Rightarrow>
          (sort (map (path_join path)
                   (filter (\<lambda>entry. endswith entry ''.sql'' \<and> isfile w (path_join path entry))
                      entries)),
           w))"

text \<open>
  The loop of \<^verbatim>\<open>deploy\<close> over the located files, from a world and a hash store; it
  returns how the loop ended and the world and the hash store at that moment.
\<close>

fun deploy_files ::
  "string \<Rightarrow> string list \<Rightarrow> world \<times> hash_store \<Rightarrow> outcome \<times> world \<times> hash_store" where
  "deploy_files gp [] (w, hs) = (Returned, w, hs)"
| "deploy_files gp (ddl_file # rest) (w, hs) =
     (case get_sql w ddl_file of
        Inl msg \<Rightarrow> (Uncaught (OSError msg), w, hs)
      | Inr sql \<Rightarrow>
          if matches_saved_hash hs ddl_file sql then deploy_files gp rest (w, hs)
          else
            (case execute_sql w sql gp of
               (Inl (CalledProcessError rc out err), w1) \<Rightarrow>
                 (SysExit 3,
                  logging ERROR ''Exiting due to SQL deployment error'' []
                    (logging ERROR ''stderr: %s'' [ArgS err]
                      (logging ERROR ''stdout: %s'' [ArgS out]
                        (logging ERROR ''Error executing ddl file %s: return code %d''
                           [ArgS ddl_file, ArgI rc] w1))),
                  hs)
             | (Inl e, w1) \<Rightarrow> (Uncaught e, w1, hs)
             | (Inr u, w1) \<Rightarrow>
                 (case update_saved_hash hs ddl_file sql (clk w1) of
                    (hs1, c1) \<Rightarrow>
                      (case save hs1 (w1\<lparr>clk := c1\<rparr>) of
                         (hs2, w2) \<Rightarrow> deploy_files gp rest (w2, hs2)))))"

text \<open>\<^verbatim>\<open>s.split(sep, 1)\<close>: split at the first separator, if there is one.\<close>

definition split_once :: "char \<Rightarrow> string \<Rightarrow> string list" where
  "split_once sep s =
     (case dropWhile (\<lambda>c. c \<noteq> sep) s of
        [] \<Rightarrow> [s]
      | _ # after \<Rightarrow> [takeWhile (\<lambda>c. c \<noteq> sep) s, after])"

definition deploy ::
  "world \<Rightarrow> string \<Rightarrow> string \<Rightarrow> string \<Rightarrow> string \<Rightarrow> outcome \<times> world \<times> hash_store option" where
  "deploy w gp ddl_folder_path user password =
     (case environ w ''REPO_AND_OWNER_NAME'' of
        None \<Rightarrow> (Uncaught (KeyError ''REPO_AND_OWNER_NAME''), w, None)
      | Some v \<Rightarrow>
          let repo_owner_name = split_once CHR ''/'' v
          in if length repo_owner_name < 2 then (Uncaught IndexError, w, None)
             else
               (case ProjectRepoHashes_init w (repo_owner_name ! 0) (repo_owner_name ! 1)
                       gp user password of
                  (hash_store, w1) \<Rightarrow>
                    (case find_ddl_files w1 ddl_folder_path of
                       (ddl_files, w2) \<Rightarrow>
                         (case deploy_files gp ddl_files (w2, hash_store) of
                            (out, w3, hs3) \<Rightarrow> (out, w3, Some hs3)))))"

definition getenv :: "world \<Rightarrow> string \<Rightarrow> exn + string" where
  "getenv w k = (case environ w k of None \<Rightarrow> Inl (KeyError k) | Some v \<Rightarrow> Inr v)"

definition main :: "world \<Rightarrow> outcome \<times> world \<times> hash_store option" where
  "main w =
     (case getenv w ''INPUT_GOOGLE_PROJECT_ID'' of
        Inl e \<Rightarrow> (Uncaught e, w, None)
      | Inr gp \<Rightarrow>
     (case getenv w ''INPUT_DDL_FOLDER_PATH'' of
        Inl e \<Rightarrow> (Uncaught e, w, None)
      | Inr ddl_folder_path \<Rightarrow>
     (case getenv w ''INPUT_HADOOP_MONGO_USER'' of
        Inl e \<Rightarrow> (Uncaught e, w, None)
      | Inr mongo_user \<Rightarrow>
     (case getenv w ''INPUT_HADOOP_MONGO_PASSWORD'' of
        Inl e \<Rightarrow> (Uncaught e, w, None)
      | Inr mongo_password \<Rightarrow>
          deploy w gp ddl_folder_path mongo_user mongo_password))))"


section \<open>Notions for stating the properties\<close>

text \<open>The entries of the record, in the order of \<^verbatim>\<open>hashes["files"]\<close>.\<close>

definition entries :: "hash_store \<Rightarrow> file_attrs list" where
  "entries hs = map (heap hs) (files (hashes hs))"

text \<open>
  \<^verbatim>\<open>filesdict\<close> maps each of its names to an entry of the list that carries this name.
\<close>

definition dict_ok :: "hash_store \<Rightarrow> bool" where
  "dict_ok hs =
     (\<forall>n r. filesdict hs n = Some r \<longrightarrow>
        r \<in> set (files (hashes hs)) \<and> file_name (heap hs r) = n)"

text \<open>Each name of \<^verbatim>\<open>filesdict\<close> is the name of exactly one entry of the list.\<close>

definition names_once :: "hash_store \<Rightarrow> bool" where
  "names_once hs =
     (\<forall>n \<in> dom (filesdict hs). count_list (map file_name (entries hs)) n = 1)"

definition filesdict_inv :: "hash_store \<Rightarrow> bool" where
  "filesdict_inv hs = (dict_ok hs \<and> names_once hs)"

text \<open>
  The invariant that the updates preserve: moreover no two entries share a name, and
  every entry's name is a key of \<^verbatim>\<open>filesdict\<close>.
\<close>

definition store_inv :: "hash_store \<Rightarrow> bool" where
  "store_inv hs =
     (dict_ok hs \<and> distinct (map file_name (entries hs))
      \<and> set (map file_name (entries hs)) \<subseteq> dom (filesdict hs))"

text \<open>Any number of calls of \<^verbatim>\<open>update_saved_hash\<close>, one after the other.\<close>

fun run_updates ::
  "hash_store \<Rightarrow> (string \<times> string) list \<Rightarrow> clock \<Rightarrow> hash_store \<times> clock" where
  "run_updates hs [] c = (hs, c)"
| "run_updates hs ((name, content) # ups) c =
     (case update_saved_hash hs name content c of (hs1, c1) \<Rightarrow> run_updates hs1 ups c1)"

text \<open>The entries that the file locator keeps.\<close>

definition wanted :: "world \<Rightarrow> string \<Rightarrow> string \<Rightarrow> bool" where
  "wanted w path entry = (endswith entry ''.sql'' \<and> isfile w (path_join path entry))"

text \<open>The record that \<^verbatim>\<open>find_ddl_files\<close> logs when the directory cannot be listed.\<close>

definition error_listing :: "string \<Rightarrow> string \<Rightarrow> log_record" where
  "error_listing path strerror =
     (ERROR, ''Error listing DDL directory %s: %s'', [ArgS path, ArgS strerror])"

text \<open>The four settings that \<^verbatim>\<open>main\<close> reads are present, with this directory path.\<close>

definition configured :: "world \<Rightarrow> string \<Rightarrow> bool" where
  "configured w path =
     (environ w ''INPUT_GOOGLE_PROJECT_ID'' \<noteq> None
      \<and> environ w ''INPUT_DDL_FOLDER_PATH'' = Some path
      \<and> environ w ''INPUT_HADOOP_MONGO_USER'' \<noteq> None
      \<and> environ w ''INPUT_HADOOP_MONGO_PASSWORD'' \<noteq> None)"

text \<open>The four records that \<^verbatim>\<open>deploy\<close> logs before \<^verbatim>\<open>sys.exit(3)\<close>.\<close>

definition exit_log :: "string \<Rightarrow> int \<Rightarrow> string \<Rightarrow> string \<Rightarrow> log_record list" where
  "exit_log ddl_file rc out err =
     [(ERROR, ''Error executing ddl file %s: return code %d'', [ArgS ddl_file, ArgI rc]),
      (ERROR, ''stdout: %s'', [ArgS out]),
      (ERROR, ''stderr: %s'', [ArgS err]),
      (ERROR, ''Exiting due to SQL deployment error'', [])]"

text \<open>The document that the collection returns for an \<^verbatim>\<open>_id\<close>.\<close>

definition stored :: "world \<Rightarrow> nat \<Rightarrow> file_attrs hashes_doc option" where
  "stored w i = find (\<lambda>d. oid d = Some i) (collection w)"

text \<open>
  The stored document of the hash store holds an entry of this name with this hash.
\<close>

definition persisted :: "world \<Rightarrow> hash_store \<Rightarrow> string \<Rightarrow> string \<Rightarrow> bool" where
  "persisted w hs name h =
     (case oid (hashes hs) of
        None \<Rightarrow> False
      | Some i \<Rightarrow>
          (case stored w i of
             None \<Rightarrow> False
           | Some d \<Rightarrow> list_ex (\<lambda>e. file_name e = name \<and> file_hash e = h) (files d)))"

text \<open>The collection never hands out an \<^verbatim>\<open>_id\<close> that a document already carries.\<close>

definition oids_fresh :: "world \<Rightarrow> bool" where
  "oids_fresh w = (\<forall>d \<in> set (collection w). \<forall>i. oid d = Some i \<longrightarrow> i < next_oid w)"

text \<open>A record that carries an \<^verbatim>\<open>_id\<close> has its document in the collection.\<close>

definition attached :: "world \<Rightarrow> hash_store \<Rightarrow> bool" where
  "attached w hs = (\<forall>i. oid (hashes hs) = Some i \<longrightarrow> stored w i \<noteq> None)"

text \<open>The stored document is the record as it is in memory.\<close>

definition synced :: "world \<Rightarrow> hash_store \<Rightarrow> bool" where
  "synced w hs = (\<exists>i. oid (hashes hs) = Some i \<and> stored w i = Some (snapshot hs))"

text \<open>What holds of the world and the hash store all through a run of \<^verbatim>\<open>deploy\<close>.\<close>

definition consistent :: "world \<Rightarrow> hash_store \<Rightarrow> bool" where
  "consistent w hs = (oids_fresh w \<and> attached w hs \<and> dict_ok hs)"



section \<open>Example data\<close>

definition example_clock :: clock where
  "example_clock = \<lparr>now = (\<lambda>n. 1000 + n), ticks = 0\<rparr>"

definition x_entry :: file_attrs where
  "x_entry = \<lparr>file_name = ''ddl/x.sql'', file_hash = md5_hexdigest ''SELECT 1;'',
              deploy_date = 15, create_date = 12\<rparr>"

definition z_entry :: file_attrs where
  "z_entry = \<lparr>file_name = ''ddl/z.sql'', file_hash = md5_hexdigest ''SELECT 3;'',
              deploy_date = 16, create_date = 13\<rparr>"

text \<open>A hash store that holds two entries, for \<^verbatim>\<open>ddl/x.sql\<close> and \<^verbatim>\<open>ddl/z.sql\<close>.\<close>

definition example_store :: hash_store where
  "example_store =
     \<lparr>hash_store_user = ''user'', hash_store_password = ''secret'',
      self_project_name = ''acme'', self_repo_name = ''ddl'',
      self_google_project_id = ''warehouse'',
      hashes = \<lparr>project_name = ''acme'', repo_name = ''ddl'',
                google_project_id = ''warehouse'', doc_create_date = 10, update_date = 20,
                files = [0, 1], oid = Some 7\<rparr>,
      heap = (\<lambda>r. if r = 0 then x_entry else z_entry),
      filesdict = [''ddl/x.sql'' \<mapsto> 0, ''ddl/z.sql'' \<mapsto> 1]\<rparr>"

definition example_doc :: "file_attrs list \<Rightarrow> file_attrs hashes_doc" where
  "example_doc fs =
     \<lparr>project_name = ''acme'', repo_name = ''ddl'', google_project_id = ''warehouse'',
      doc_create_date = 10, update_date = 20, files = fs, oid = Some 7\<rparr>"

text \<open>
  A world whose collection holds the documents \<open>docs\<close>, with a directory \<^verbatim>\<open>ddl\<close> that
  lists \<^verbatim>\<open>b.sql\<close>, \<^verbatim>\<open>a.sql\<close> and \<^verbatim>\<open>c.txt\<close>, all regular files; the files
  \<^verbatim>\<open>ddl/a.sql\<close> and \<^verbatim>\<open>ddl/x.sql\<close> read \<^verbatim>\<open>SELECT 1;\<close>; \<^verbatim>\<open>bq\<close> fails with return
  code 1 on the text of \<^verbatim>\<open>ddl/b.sql\<close> and succeeds on every other input.
\<close>

definition example_world :: "file_attrs hashes_doc list \<Rightarrow> world" where
  "example_world docs =
     \<lparr>environ = [''REPO_AND_OWNER_NAME'' \<mapsto> ''acme/ddl'',
                 ''INPUT_GOOGLE_PROJECT_ID'' \<mapsto> ''warehouse'',
                 ''INPUT_DDL_FOLDER_PATH'' \<mapsto> ''ddl'',
                 ''INPUT_HADOOP_MONGO_USER'' \<mapsto> ''user'',
                 ''INPUT_HADOOP_MONGO_PASSWORD'' \<mapsto> ''secret''],
      collection = docs,
      next_oid = 8,
      listdir = (\<lambda>p. if p = ''ddl'' then Inr [''b.sql'', ''a.sql'', ''c.txt'']
                      else Inl ''No such file or directory''),
      isfile = (\<lambda>p. True),
      read_text = (\<lambda>p. if p = ''ddl/a.sql'' \<or> p = ''ddl/x.sql'' then Inr ''SELECT 1;''
                        else if p = ''ddl/b.sql'' then Inr ''SELEC 2;''
                        else Inl ''No such file or directory''),
      bq = (\<lambda>k cmd sql. if sql = ''SELEC 2;'' then Completed 1 [] ''Syntax error''
                         else Completed 0 ''ok'' []),
      executed = [],
      clk = example_clock,
      logged = []\<rparr>"


text \<open>A world whose stored record has two entries of the same name.\<close>

definition dup_world :: world where
  "dup_world =
     example_world [example_doc [x_entry, x_entry\<lparr>file_hash := md5_hexdigest ''SELECT 0;''\<rparr>]]"


text \<open>A hash store for a triple that was never stored.\<close>

definition empty_store :: hash_store where
  "empty_store =
     \<lparr>hash_store_user = ''user'', hash_store_password = ''secret'',
      self_project_name = ''acme'', self_repo_name = ''ddl'',
      self_google_project_id = ''warehouse'',
      hashes = \<lparr>project_name = ''acme'', repo_name = ''ddl'',
                google_project_id = ''warehouse'', doc_create_date = 1000, update_date = 1001,
                files = [], oid = None\<rparr>,
      heap = (\<lambda>r. x_entry),
      filesdict = Map.empty\<rparr>"

text \<open>The loop over the one file \<^verbatim>\<open>ddl/a.sql\<close>, from the empty collection.\<close>

definition after_a :: "outcome \<times> world \<times> hash_store" where
  "after_a = deploy_files ''warehouse'' [''ddl/a.sql''] (example_world [], empty_store)"

text \<open>A world configured with a directory that does not exist.\<close>

definition missing_dir_world :: world where
  "missing_dir_world =
     (example_world [])\<lparr>environ := (environ (example_world []))(''INPUT_DDL_FOLDER_PATH'' \<mapsto> ''missing'')\<rparr>"


section \<open>The digest\<close>

lemma length_hexdigest: "length (hexdigest bs) = 2 * length bs"
  by (induction bs) (simp_all add: hexdigest_def hex_byte_def)

lemma length_le_bytes: "length (le_bytes n w) = n"
  by (simp add: le_bytes_def)

lemma length_md5_digest: "length (md5_digest m) = 16"
  by (simp add: md5_digest_def Let_def length_le_bytes split: prod.splits)

lemma length_md5_hexdigest: "length (md5_hexdigest s) = 32"
  by (simp add: md5_hexdigest_def length_hexdigest length_md5_digest)

lemma md5_hexdigest_not_empty: "md5_hexdigest s \<noteq> []"
  using length_md5_hexdigest [of s] by auto

text \<open>The model computes the digest that the RFC lists for the message \<^verbatim>\<open>abc\<close>.\<close>

lemma md5_hexdigest_abc: "md5_hexdigest ''abc'' = ''900150983cd24fb0d6963f7d28e17f72''"
  by code_simp


section \<open>The hash store\<close>

lemma fold_max_ge: "x \<in> set rs \<Longrightarrow> x \<le> fold max rs (m::nat)"
proof (induction rs arbitrary: m)
  case Nil
  then show ?case by simp
next
  case (Cons a rs)
  have mono: "m \<le> fold max rs m" for m :: nat and rs
    by (induction rs arbitrary: m) (auto intro: order_trans [OF max.cobounded2])
  from Cons show ?case
    using mono [of "max a m" rs] by auto
qed

lemma new_ref_fresh: "new_ref rs \<notin> set rs"
  using fold_max_ge [of "new_ref rs" rs 0] by (auto simp: new_ref_def)

text \<open>
  C1. For every file name and every content, \<^verbatim>\<open>matches_saved_hash\<close> right after
  \<^verbatim>\<open>update_saved_hash\<close> with the same name and content, on the hash store that the
  update leaves, returns true: the stored hash is then the MD5 hex digest of the UTF-8
  encoding of the content, which is what the comparison computes again.
\<close>

theorem update_then_matches:
  "get_file_hash (fst (update_saved_hash hs name content c)) name
     = hexdigest (md5_digest (encode_utf8 content))
   \<and> matches_saved_hash (fst (update_saved_hash hs name content c)) name content = True"
  by (simp add: matches_saved_hash_def update_saved_hash_def get_file_hash_def utcnow_def
      md5_hexdigest_def Let_def split: option.splits)

text \<open>
  C8. For a file name that has no entry in the hash store (\<^verbatim>\<open>filesdict\<close> does not
  hold it; or, in a store where \<^verbatim>\<open>filesdict\<close> maps names to entries of the list, no
  entry of the list carries it), \<^verbatim>\<open>get_file_hash\<close> returns the empty string, an MD5
  hex digest is never empty, and so \<^verbatim>\<open>matches_saved_hash\<close> returns false whatever the
  content.
\<close>

theorem unrecorded_never_matches:
  assumes "filesdict hs name = None
           \<or> (dict_ok hs \<and> name \<notin> file_name ` set (entries hs))"
  shows "get_file_hash hs name = [] \<and> md5_hexdigest content \<noteq> []
         \<and> matches_saved_hash hs name content = False"
proof -
  have "filesdict hs name = None"
  proof (cases "filesdict hs name")
    case None
    then show ?thesis .
  next
    case (Some r)
    with assms have "dict_ok hs" "name \<notin> file_name ` set (entries hs)"
      by simp_all
    with Some have False
      by (force simp add: dict_ok_def entries_def)
    then show ?thesis ..
  qed
  then show ?thesis
    using md5_hexdigest_not_empty [of content]
    by (simp add: matches_saved_hash_def get_file_hash_def)
qed

theorem unrecorded_never_matches_witness:
  "filesdict example_store ''ddl/y.sql'' = None
   \<and> dict_ok example_store
   \<and> ''ddl/y.sql'' \<notin> file_name ` set (entries example_store)
   \<and> get_file_hash example_store ''ddl/y.sql'' = []
   \<and> md5_hexdigest ''SELECT 2;'' \<noteq> []
   \<and> matches_saved_hash example_store ''ddl/y.sql'' ''SELECT 2;'' = False"
proof -
  have h: "filesdict example_store ''ddl/y.sql'' = None"
    by (simp add: example_store_def)
  have ok: "dict_ok example_store"
    by (simp add: dict_ok_def example_store_def x_entry_def z_entry_def)
  have e: "''ddl/y.sql'' \<notin> file_name ` set (entries example_store)"
    by (simp add: entries_def example_store_def x_entry_def z_entry_def)
  have "filesdict example_store ''ddl/y.sql'' = None
        \<or> (dict_ok example_store \<and> ''ddl/y.sql'' \<notin> file_name ` set (entries example_store))"
    using h by simp
  from unrecorded_never_matches [OF this, where content = "''SELECT 2;''"] h ok e
  show ?thesis by simp
qed

text \<open>
  C4. \<^verbatim>\<open>update_saved_hash\<close> computes the hash of the content again. When
  \<^verbatim>\<open>filesdict\<close> holds the name, the entry it refers to gets the new hash and the time
  read from the clock as its \<^verbatim>\<open>deploy_date\<close>, in place: the list holds the same
  references and \<^verbatim>\<open>filesdict\<close> is unchanged. Otherwise one entry is appended to the
  list, with the name, the hash, and two readings of the clock taken during the call
  as \<^verbatim>\<open>deploy_date\<close> (the first) and \<^verbatim>\<open>create_date\<close> (the second); \<^verbatim>\<open>filesdict\<close>
  maps the name to this last entry and is unchanged elsewhere.
\<close>

theorem update_saved_hash_effect:
  "(\<forall>r. filesdict hs name = Some r \<longrightarrow>
      (case update_saved_hash hs name content c of (hs', c') \<Rightarrow>
         heap hs' r = (heap hs r)\<lparr>file_hash := md5_hexdigest content, deploy_date := now c (ticks c)\<rparr>
         \<and> files (hashes hs') = files (hashes hs)
         \<and> filesdict hs' = filesdict hs))
   \<and> (filesdict hs name = None \<longrightarrow>
      (case update_saved_hash hs name content c of (hs', c') \<Rightarrow>
         entries hs' = entries hs @
           [\<lparr>file_name = name, file_hash = md5_hexdigest content,
             deploy_date = now c (ticks c), create_date = now c (Suc (ticks c))\<rparr>]
         \<and> filesdict hs' name = Some (last (files (hashes hs')))
         \<and> (\<forall>n. n \<noteq> name \<longrightarrow> filesdict hs' n = filesdict hs n)))"
  using new_ref_fresh [of "files (hashes hs)"]
  by (auto simp add: update_saved_hash_def utcnow_def Let_def entries_def)

theorem update_saved_hash_effect_witness:
  "filesdict example_store ''ddl/x.sql'' = Some 0
   \<and> (case update_saved_hash example_store ''ddl/x.sql'' ''SELECT 2;'' example_clock of
        (hs', c') \<Rightarrow>
          heap hs' 0 = \<lparr>file_name = ''ddl/x.sql'', file_hash = md5_hexdigest ''SELECT 2;'',
                        deploy_date = 1000, create_date = 12\<rparr>
          \<and> files (hashes hs') = [0, 1])
   \<and> filesdict example_store ''ddl/y.sql'' = None
   \<and> (case update_saved_hash example_store ''ddl/y.sql'' ''SELECT 2;'' example_clock of
        (hs', c') \<Rightarrow>
          entries hs' =
            [x_entry, z_entry,
             \<lparr>file_name = ''ddl/y.sql'', file_hash = md5_hexdigest ''SELECT 2;'',
              deploy_date = 1000, create_date = 1001\<rparr>])"
proof -
  have x: "filesdict example_store ''ddl/x.sql'' = Some 0"
    and y: "filesdict example_store ''ddl/y.sql'' = None"
    by (simp_all add: example_store_def)
  have e: "entries example_store = [x_entry, z_entry]" "heap example_store 0 = x_entry"
    "files (hashes example_store) = [0, 1]"
    by (simp_all add: example_store_def entries_def)
  have c: "now example_clock (ticks example_clock) = 1000"
    "now example_clock (Suc (ticks example_clock)) = 1001"
    by (simp_all add: example_clock_def)
  show ?thesis
    using x y
      update_saved_hash_effect [where hs = example_store and name = "''ddl/x.sql''"
        and content = "''SELECT 2;''" and c = example_clock]
      update_saved_hash_effect [where hs = example_store and name = "''ddl/y.sql''"
        and content = "''SELECT 2;''" and c = example_clock]
    by (simp add: e c x_entry_def split: prod.splits)
qed

text \<open>
  C10. An update of a name that \<^verbatim>\<open>filesdict\<close> holds leaves the entry's \<^verbatim>\<open>file_name\<close>
  and \<^verbatim>\<open>create_date\<close> as they were, leaves every other entry object as it was (and
  so, in a store where \<^verbatim>\<open>filesdict\<close> maps names to entries of that name, the entry of
  every other name), and changes neither the dictionary \<^verbatim>\<open>hashes\<close> (its project name,
  repository name, target identifier, dates, list and identity) nor \<^verbatim>\<open>filesdict\<close>
  nor the attributes of the object.
\<close>

theorem update_existing_frame:
  assumes "filesdict hs name = Some r"
  shows "(case update_saved_hash hs name content c of (hs', c') \<Rightarrow>
           file_name (heap hs' r) = file_name (heap hs r)
           \<and> create_date (heap hs' r) = create_date (heap hs r)
           \<and> (\<forall>r'. r' \<noteq> r \<longrightarrow> heap hs' r' = heap hs r')
           \<and> (dict_ok hs \<longrightarrow>
                (\<forall>n r'. n \<noteq> name \<and> filesdict hs n = Some r' \<longrightarrow> heap hs' r' = heap hs r'))
           \<and> hashes hs' = hashes hs
           \<and> filesdict hs' = filesdict hs
           \<and> self_project_name hs' = self_project_name hs
           \<and> self_repo_name hs' = self_repo_name hs
           \<and> self_google_project_id hs' = self_google_project_id hs)"
  using assms
  by (auto simp add: update_saved_hash_def utcnow_def Let_def dict_ok_def)


theorem update_existing_frame_witness:
  "filesdict example_store ''ddl/x.sql'' = Some 0 \<and> dict_ok example_store
   \<and> filesdict example_store ''ddl/z.sql'' = Some 1
   \<and> (case update_saved_hash example_store ''ddl/x.sql'' ''SELECT 2;'' example_clock of
        (hs', c') \<Rightarrow>
          file_name (heap hs' 0) = ''ddl/x.sql'' \<and> create_date (heap hs' 0) = 12
          \<and> heap hs' 1 = z_entry
          \<and> hashes hs' = hashes example_store
          \<and> filesdict hs' = filesdict example_store)"
proof -
  have x: "filesdict example_store ''ddl/x.sql'' = Some 0"
    and z: "filesdict example_store ''ddl/z.sql'' = Some 1"
    by (simp_all add: example_store_def)
  have ok: "dict_ok example_store"
    by (simp add: dict_ok_def example_store_def x_entry_def z_entry_def)
  have e: "heap example_store 0 = x_entry" "heap example_store (Suc 0) = z_entry"
    by (simp_all add: example_store_def)
  show ?thesis
    using x z ok update_existing_frame [OF x, where content = "''SELECT 2;''" and c = example_clock]
    by (auto simp add: e x_entry_def split: prod.splits)
qed

lemma count_list_distinct: "distinct xs \<Longrightarrow> x \<in> set xs \<Longrightarrow> count_list xs x = 1"
  by (induction xs) auto

lemma store_inv_imp:
  assumes "store_inv hs"
  shows "filesdict_inv hs"
proof -
  have ok: "dict_ok hs" and dist: "distinct (map file_name (entries hs))"
    using assms by (simp_all add: store_inv_def)
  have "count_list (map file_name (entries hs)) n = 1" if "n \<in> dom (filesdict hs)" for n
  proof -
    from that obtain r where "filesdict hs n = Some r" by auto
    with ok have "r \<in> set (files (hashes hs))" "file_name (heap hs r) = n"
      by (simp_all add: dict_ok_def)
    then have "n \<in> set (map file_name (entries hs))"
      by (force simp: entries_def)
    with dist show ?thesis
      by (rule count_list_distinct)
  qed
  with ok show ?thesis
    by (simp add: filesdict_inv_def names_once_def)
qed

lemma dict_ok_update: "dict_ok hs \<Longrightarrow> dict_ok (fst (update_saved_hash hs name content c))"
  using new_ref_fresh [of "files (hashes hs)"]
  by (auto simp add: update_saved_hash_def utcnow_def Let_def dict_ok_def split: option.splits)

lemma names_update_existing:
  "filesdict hs name = Some r \<Longrightarrow>
   map file_name (entries (fst (update_saved_hash hs name content c)))
     = map file_name (entries hs)"
  by (auto simp add: update_saved_hash_def utcnow_def Let_def entries_def)

lemma names_update_new:
  "filesdict hs name = None \<Longrightarrow>
   map file_name (entries (fst (update_saved_hash hs name content c)))
     = map file_name (entries hs) @ [name]"
  using new_ref_fresh [of "files (hashes hs)"]
  by (auto simp add: update_saved_hash_def utcnow_def Let_def entries_def)

lemma dom_update:
  "dom (filesdict (fst (update_saved_hash hs name content c))) = insert name (dom (filesdict hs))"
  by (auto simp add: update_saved_hash_def utcnow_def Let_def split: option.splits)

lemma store_inv_update:
  assumes "store_inv hs"
  shows "store_inv (fst (update_saved_hash hs name content c))"
proof (cases "filesdict hs name")
  case None
  then have "name \<notin> set (map file_name (entries hs))"
    using assms by (auto simp: store_inv_def)
  then show ?thesis
    using assms dict_ok_update [of hs name content c] names_update_new [OF None, of content c]
      dom_update [of hs name content c]
    by (auto simp: store_inv_def)
next
  case (Some r)
  then show ?thesis
    using assms dict_ok_update [of hs name content c]
      names_update_existing [OF Some, of content c] dom_update [of hs name content c]
    by (auto simp: store_inv_def)
qed

lemma store_inv_run_updates:
  "store_inv hs \<Longrightarrow> store_inv (fst (run_updates hs ups c))"
proof (induction ups arbitrary: hs c)
  case Nil
  then show ?case by simp
next
  case (Cons u ups)
  obtain name content where u: "u = (name, content)" by (cases u)
  obtain hs1 c1 where s: "update_saved_hash hs name content c = (hs1, c1)"
    by (cases "update_saved_hash hs name content c")
  have "store_inv hs1" using store_inv_update [OF Cons.prems, of name content c] s by simp
  from Cons.IH [OF this, of c1] show ?case by (simp add: u s)
qed

lemma make_filesdict_aux:
  "fold (\<lambda>r m. m(file_name (h r) \<mapsto> r)) rs m0 n = Some r \<Longrightarrow>
     (r \<in> set rs \<and> file_name (h r) = n) \<or> m0 n = Some r"
proof (induction rs arbitrary: m0)
  case Nil
  then show ?case by simp
next
  case (Cons a rs)
  from Cons.prems
  have "fold (\<lambda>r m. m(file_name (h r) \<mapsto> r)) rs (m0(file_name (h a) \<mapsto> a)) n = Some r"
    by (simp only: fold.simps o_apply)
  from Cons.IH [OF this] show ?case
    by (cases "n = file_name (h a)") auto
qed

lemma make_filesdict_dom:
  "dom (fold (\<lambda>r m. m(file_name (h r) \<mapsto> r)) rs m0) = dom m0 \<union> file_name ` h ` set rs"
  by (induction rs arbitrary: m0) auto

lemma length_update:
  "length (files (hashes (fst (update_saved_hash hs name content c)))) =
     (if name \<in> dom (filesdict hs) then length (files (hashes hs))
      else Suc (length (files (hashes hs))))"
  by (auto simp add: update_saved_hash_def utcnow_def Let_def split: option.splits)

lemma init_fresh:
  "get_hashes (collection w) pn rn gp = None \<Longrightarrow>
     store_inv (fst (ProjectRepoHashes_init w pn rn gp u pw))"
  by (simp add: ProjectRepoHashes_init_def utcnow_def Let_def store_inv_def dict_ok_def entries_def
      split: prod.splits)

lemma init_entries:
  "get_hashes (collection w) pn rn gp = Some d \<Longrightarrow>
     entries (fst (ProjectRepoHashes_init w pn rn gp u pw)) = files d"
  by (simp add: ProjectRepoHashes_init_def utcnow_def Let_def entries_def with_files_def map_nth)

lemma init_dom:
  assumes "get_hashes (collection w) pn rn gp = Some d"
  shows "dom (filesdict (fst (ProjectRepoHashes_init w pn rn gp u pw))) = file_name ` set (files d)"
proof -
  have "nth (files d) ` set [0..<length (files d)] = set (files d)"
    by (simp only: set_map [symmetric] map_nth)
  then show ?thesis
    using assms make_filesdict_dom [of "nth (files d)" "[0..<length (files d)]" Map.empty]
    by (simp add: ProjectRepoHashes_init_def utcnow_def Let_def make_filesdict_def)
qed

lemma init_dict_ok: "dict_ok (fst (ProjectRepoHashes_init w pn rn gp u pw))"
proof (cases "get_hashes (collection w) pn rn gp")
  case None
  then show ?thesis using init_fresh [OF None] by (simp add: store_inv_def)
next
  case (Some d)
  then show ?thesis
    using make_filesdict_aux [of "nth (files d)" "[0..<length (files d)]" Map.empty]
    by (auto simp add: ProjectRepoHashes_init_def utcnow_def Let_def dict_ok_def make_filesdict_def
        with_files_def)
qed

lemma init_loaded:
  assumes "get_hashes (collection w) pn rn gp = Some d" "distinct (map file_name (files d))"
  shows "store_inv (fst (ProjectRepoHashes_init w pn rn gp u pw))"
  using init_dict_ok [of w pn rn gp u pw] assms(2) init_entries [OF assms(1), of u pw]
    init_dom [OF assms(1), of u pw]
  by (simp add: store_inv_def)

text \<open>
  C9, as amended. When the lookup finds no stored record, or finds one whose entries
  have pairwise distinct names, then after the construction and after any number of
  updates \<^verbatim>\<open>filesdict\<close> maps each of its names to an entry of the list with that
  name, and each of its names is the name of exactly one entry of the list; one more
  update keeps this, leaves the length of the list unchanged for a name that
  \<^verbatim>\<open>filesdict\<close> holds, and makes it one longer for a new name.
\<close>

theorem hash_store_invariant:
  assumes "case get_hashes (collection w) pn rn gp of
             None \<Rightarrow> True
           | Some d \<Rightarrow> distinct (map file_name (files d))"
  shows "let hs = fst (run_updates (fst (ProjectRepoHashes_init w pn rn gp u pw)) ups c);
             hs' = fst (update_saved_hash hs name content c')
         in filesdict_inv hs \<and> filesdict_inv hs'
            \<and> length (files (hashes hs')) =
                (if name \<in> dom (filesdict hs) then length (files (hashes hs))
                 else Suc (length (files (hashes hs))))"
proof -
  have "store_inv (fst (ProjectRepoHashes_init w pn rn gp u pw))"
    using assms init_fresh init_loaded by (auto split: option.splits)
  then have "store_inv (fst (run_updates (fst (ProjectRepoHashes_init w pn rn gp u pw)) ups c))"
    by (rule store_inv_run_updates)
  then show ?thesis
    using store_inv_update store_inv_imp length_update by (simp add: Let_def)
qed

text \<open>
  C9 as stated fails after the construction from a stored record in which two entries
  carry the same name: \<^verbatim>\<open>filesdict\<close> refers to the later one, and the name occurs
  twice in the list.
\<close>

theorem duplicate_names_counterexample:
  "filesdict (fst (ProjectRepoHashes_init dup_world ''acme'' ''ddl'' ''warehouse'' ''user'' ''secret''))
      ''ddl/x.sql'' = Some 1
   \<and> count_list
        (map file_name
          (entries (fst (ProjectRepoHashes_init dup_world ''acme'' ''ddl'' ''warehouse''
                           ''user'' ''secret''))))
        ''ddl/x.sql'' = 2
   \<and> \<not> filesdict_inv
          (fst (ProjectRepoHashes_init dup_world ''acme'' ''ddl'' ''warehouse'' ''user'' ''secret''))"
proof -
  let ?hs = "fst (ProjectRepoHashes_init dup_world ''acme'' ''ddl'' ''warehouse'' ''user'' ''secret'')"
  have g: "get_hashes (collection dup_world) ''acme'' ''ddl'' ''warehouse''
             = Some (example_doc [x_entry, x_entry\<lparr>file_hash := md5_hexdigest ''SELECT 0;''\<rparr>])"
    by (simp add: dup_world_def example_world_def example_doc_def get_hashes_def)
  have e: "map file_name (entries ?hs) = [''ddl/x.sql'', ''ddl/x.sql'']"
    using init_entries [OF g] by (simp add: example_doc_def x_entry_def)
  have d: "filesdict ?hs ''ddl/x.sql'' = Some 1"
    using g
    by (simp add: ProjectRepoHashes_init_def utcnow_def Let_def make_filesdict_def example_doc_def
        x_entry_def upt_rec)
  have c: "count_list (map file_name (entries ?hs)) ''ddl/x.sql'' = 2"
    by (simp add: e)
  have m: "''ddl/x.sql'' \<in> dom (filesdict ?hs)"
    using d by blast
  have "\<not> names_once ?hs"
  proof
    assume "names_once ?hs"
    with m have "count_list (map file_name (entries ?hs)) ''ddl/x.sql'' = 1"
      unfolding names_once_def by blast
    with c show False by simp
  qed
  then show ?thesis
    using d c by (simp add: filesdict_inv_def)
qed


theorem hash_store_invariant_witness:
  "(case get_hashes (collection (example_world [example_doc [x_entry, z_entry]]))
           ''acme'' ''ddl'' ''warehouse'' of
      None \<Rightarrow> True
    | Some d \<Rightarrow> distinct (map file_name (files d)))
   \<and> (let hs = fst (run_updates
                     (fst (ProjectRepoHashes_init (example_world [example_doc [x_entry, z_entry]])
                            ''acme'' ''ddl'' ''warehouse'' ''user'' ''secret''))
                     [(''ddl/y.sql'', ''SELECT 2;'')] example_clock);
           hs' = fst (update_saved_hash hs ''ddl/x.sql'' ''SELECT 4;'' example_clock)
       in filesdict_inv hs \<and> filesdict_inv hs'
          \<and> length (files (hashes hs)) = 3 \<and> length (files (hashes hs')) = 3)"
proof -
  let ?w = "example_world [example_doc [x_entry, z_entry]]"
  let ?h = "fst (ProjectRepoHashes_init ?w ''acme'' ''ddl'' ''warehouse'' ''user'' ''secret'')"
  let ?hs = "fst (run_updates ?h [(''ddl/y.sql'', ''SELECT 2;'')] example_clock)"
  have g: "get_hashes (collection ?w) ''acme'' ''ddl'' ''warehouse''
             = Some (example_doc [x_entry, z_entry])"
    by (simp add: example_world_def example_doc_def get_hashes_def)
  have h: "case get_hashes (collection ?w) ''acme'' ''ddl'' ''warehouse'' of
             None \<Rightarrow> True
           | Some d \<Rightarrow> distinct (map file_name (files d))"
    unfolding g by (simp add: example_doc_def x_entry_def z_entry_def)
  have d0: "dom (filesdict ?h) = {''ddl/x.sql'', ''ddl/z.sql''}"
    using init_dom [OF g] by (auto simp add: example_doc_def x_entry_def z_entry_def)
  have l0: "length (files (hashes ?h)) = 2"
    using g by (simp add: ProjectRepoHashes_init_def utcnow_def Let_def with_files_def
        example_doc_def)
  have hs: "?hs = fst (update_saved_hash ?h ''ddl/y.sql'' ''SELECT 2;'' example_clock)"
    by (simp split: prod.splits)
  have l1: "length (files (hashes ?hs)) = 3"
    unfolding hs using d0 l0 by (simp add: length_update)
  have d1: "''ddl/x.sql'' \<in> dom (filesdict ?hs)"
    unfolding hs using d0 by (simp add: dom_update)
  show ?thesis
    using h l1 d1
      hash_store_invariant [OF h, where u = "''user''" and pw = "''secret''"
        and ups = "[(''ddl/y.sql'', ''SELECT 2;'')]" and c = example_clock
        and name = "''ddl/x.sql''" and content = "''SELECT 4;''" and c' = example_clock]
    by (simp add: Let_def)
qed

text \<open>
  C7. The constructor looks the triple up: \<^verbatim>\<open>find_one\<close> returns a document of the
  collection that carries the three values (the one such document, when it is
  unique), or none when no document carries them. When there is none, the record in
  memory has the three values, an empty list, no \<^verbatim>\<open>_id\<close>, the first reading of the
  clock as its creation date and the next reading as its \<^verbatim>\<open>update_date\<close>. When a
  document is found, the record in memory is that document (same entries, same
  \<^verbatim>\<open>_id\<close>) with the reading of the clock as its \<^verbatim>\<open>update_date\<close>.
\<close>

theorem load_hash_store:
  "(let hs = fst (ProjectRepoHashes_init w pn rn gp u pw)
    in case get_hashes (collection w) pn rn gp of
         None \<Rightarrow>
           (\<forall>d \<in> set (collection w).
              \<not> (project_name d = pn \<and> repo_name d = rn \<and> google_project_id d = gp))
           \<and> hashes hs =
               \<lparr>project_name = pn, repo_name = rn, google_project_id = gp,
                doc_create_date = now (clk w) (ticks (clk w)),
                update_date = now (clk w) (Suc (ticks (clk w))),
                files = [], oid = None\<rparr>
           \<and> filesdict hs = Map.empty
       | Some d \<Rightarrow>
           d \<in> set (collection w)
           \<and> project_name d = pn \<and> repo_name d = rn \<and> google_project_id d = gp
           \<and> snapshot hs = d\<lparr>update_date := now (clk w) (ticks (clk w))\<rparr>
           \<and> dom (filesdict hs) = file_name ` set (files d))"
proof (cases "get_hashes (collection w) pn rn gp")
  case None
  then have "\<forall>d \<in> set (collection w).
      \<not> (project_name d = pn \<and> repo_name d = rn \<and> google_project_id d = gp)"
    by (simp add: get_hashes_def find_None_iff)
  then show ?thesis
    using None
    by (simp add: ProjectRepoHashes_init_def utcnow_def Let_def logging_def)
next
  case (Some d)
  then have "d \<in> set (collection w)"
    "project_name d = pn \<and> repo_name d = rn \<and> google_project_id d = gp"
    by (auto simp add: get_hashes_def find_Some_iff)
  moreover have "snapshot (fst (ProjectRepoHashes_init w pn rn gp u pw))
      = d\<lparr>update_date := now (clk w) (ticks (clk w))\<rparr>"
    using Some
    by (simp add: ProjectRepoHashes_init_def utcnow_def Let_def snapshot_def with_files_def map_nth)
  ultimately show ?thesis
    using Some init_dom [OF Some, of u pw] by (simp add: Let_def)
qed

theorem load_hash_store_witness:
  "get_hashes (collection (example_world [])) ''acme'' ''ddl'' ''warehouse'' = None
   \<and> hashes (fst (ProjectRepoHashes_init (example_world []) ''acme'' ''ddl'' ''warehouse''
                   ''user'' ''secret''))
       = \<lparr>project_name = ''acme'', repo_name = ''ddl'', google_project_id = ''warehouse'',
          doc_create_date = 1000, update_date = 1001, files = [], oid = None\<rparr>
   \<and> get_hashes (collection (example_world [example_doc [x_entry]])) ''acme'' ''ddl'' ''warehouse''
       = Some (example_doc [x_entry])
   \<and> snapshot (fst (ProjectRepoHashes_init (example_world [example_doc [x_entry]])
                    ''acme'' ''ddl'' ''warehouse'' ''user'' ''secret''))
       = (example_doc [x_entry])\<lparr>update_date := 1000\<rparr>"
proof -
  have n: "get_hashes (collection (example_world [])) ''acme'' ''ddl'' ''warehouse'' = None"
    by (simp add: example_world_def get_hashes_def)
  have s: "get_hashes (collection (example_world [example_doc [x_entry]]))
             ''acme'' ''ddl'' ''warehouse'' = Some (example_doc [x_entry])"
    by (simp add: example_world_def example_doc_def get_hashes_def)
  have c: "now (clk (example_world docs)) (ticks (clk (example_world docs))) = 1000"
    "now (clk (example_world docs)) (Suc (ticks (clk (example_world docs)))) = 1001" for docs
    by (simp_all add: example_world_def example_clock_def)
  show ?thesis
    using n s
      load_hash_store [where w = "example_world []" and pn = "''acme''" and rn = "''ddl''"
        and gp = "''warehouse''" and u = "''user''" and pw = "''secret''"]
      load_hash_store [where w = "example_world [example_doc [x_entry]]" and pn = "''acme''"
        and rn = "''ddl''" and gp = "''warehouse''" and u = "''user''" and pw = "''secret''"]
    by (simp add: Let_def c)
qed


text \<open>
  A record that was never stored, after one update and one \<^verbatim>\<open>save\<close>: the collection
  has one more document, the only one of the triple, and it holds one entry.
\<close>

lemma fresh_update_save:
  assumes "get_hashes (collection w) pn rn gp = None"
    and "ProjectRepoHashes_init w pn rn gp u pw = (hs, w1)"
    and "update_saved_hash hs name content (clk w1) = (hs1, c1)"
    and "save hs1 (w1\<lparr>clk := c1\<rparr>) = (hs2, w2)"
  shows "\<exists>d. collection w2 = collection w @ [d]
           \<and> project_name d = pn \<and> repo_name d = rn \<and> google_project_id d = gp
           \<and> oid d = Some (next_oid w) \<and> oid (hashes hs2) = Some (next_oid w)
           \<and> map file_name (files d) = [name]
           \<and> map file_hash (files d) = [md5_hexdigest content]
           \<and> filter (\<lambda>x. project_name x = pn \<and> repo_name x = rn \<and> google_project_id x = gp)
                 (collection w2) = [d]"
proof -
  have none: "filter (\<lambda>x. project_name x = pn \<and> repo_name x = rn \<and> google_project_id x = gp)
                (collection w) = []"
    using assms(1) by (auto simp add: get_hashes_def find_None_iff filter_empty_conv)
  have i: "hs = fst (ProjectRepoHashes_init w pn rn gp u pw)"
    "w1 = snd (ProjectRepoHashes_init w pn rn gp u pw)"
    using assms(2) by simp_all
  have h: "hashes hs = \<lparr>project_name = pn, repo_name = rn, google_project_id = gp,
             doc_create_date = now (clk w) (ticks (clk w)),
             update_date = now (clk w) (Suc (ticks (clk w))), files = [], oid = None\<rparr>"
    "filesdict hs = Map.empty" "collection w1 = collection w" "next_oid w1 = next_oid w"
    using assms(1) by (simp_all add: i ProjectRepoHashes_init_def utcnow_def Let_def logging_def)
  have u: "hs1 = fst (update_saved_hash hs name content (clk w1))"
    using assms(3) by simp
  have h1: "oid (hashes hs1) = None" "project_name (hashes hs1) = pn"
    "repo_name (hashes hs1) = rn" "google_project_id (hashes hs1) = gp"
    "map file_name (entries hs1) = [name]" "map file_hash (entries hs1) = [md5_hexdigest content]"
    by (simp_all add: u h update_saved_hash_def utcnow_def Let_def entries_def)
  have s: "hs2 = hs1\<lparr>hashes := (hashes hs1)\<lparr>oid := Some (next_oid w)\<rparr>\<rparr>"
    "collection w2 = collection w @ [snapshot hs2]"
    using assms(4) h1(1) h(3,4) by (auto simp add: save_def Let_def)
  have d: "project_name (snapshot hs2) = pn" "repo_name (snapshot hs2) = rn"
    "google_project_id (snapshot hs2) = gp" "oid (snapshot hs2) = Some (next_oid w)"
    "files (snapshot hs2) = entries hs1"
    using h1 by (simp_all add: s(1) snapshot_def with_files_def entries_def)
  show ?thesis
    using none h1 d by (intro exI [of _ "snapshot hs2"]) (simp add: s)
qed

section \<open>The file locator and the deployment\<close>

subsection \<open>The file locator\<close>

lemma append_le_append: "(p :: string) @ a \<le> p @ b \<longleftrightarrow> a \<le> b"
  by (induction p) simp_all

lemma sort_map_append:
  "sort (map ((@) (p :: string)) xs) = map ((@) p) (sort xs)"
proof (rule properties_for_sort)
  show "mset (map ((@) p) (sort xs)) = mset (map ((@) p) xs)"
    by simp
  have "sorted (sort xs)" by simp
  then show "sorted (map ((@) p) (sort xs))"
    unfolding sorted_map by (rule sorted_wrt_mono_rel [rotated]) (simp add: append_le_append)
qed

lemma path_join_plain:
  "e = [] \<or> hd e \<noteq> CHR ''/'' \<Longrightarrow>
     path_join path e = (if path = [] \<or> last path = CHR ''/'' then path else path @ ''/'') @ e"
  by (auto simp add: path_join_def)

text \<open>
  C5, as amended. For a directory that can be listed, the file locator returns the
  paths \<^verbatim>\<open>os.path.join(path, entry)\<close> of exactly the entries that end in \<^verbatim>\<open>.sql\<close> and
  are regular files, each as often as the listing holds the entry, in sorted order,
  and leaves the world as it was. Entries are plain names (none starts with a slash),
  and then the order of the paths is the order of the names.
\<close>

theorem find_ddl_files_listing:
  assumes "listdir w path = Inr listing"
  shows "(case find_ddl_files w path of (found, w') \<Rightarrow>
           w' = w \<and> sorted found
           \<and> mset found = image_mset (path_join path) (filter_mset (wanted w path) (mset listing))
           \<and> ((\<forall>e \<in> set listing. e = [] \<or> hd e \<noteq> CHR ''/'') \<longrightarrow>
                found = map (path_join path) (sort (filter (wanted w path) listing))))"
proof -
  let ?pre = "if path = [] \<or> last path = CHR ''/'' then path else path @ ''/''"
  have f: "find_ddl_files w path = (sort (map (path_join path) (filter (wanted w path) listing)), w)"
    using assms by (simp add: find_ddl_files_def wanted_def [abs_def])
  have "sort (map (path_join path) (filter (wanted w path) listing))
          = map (path_join path) (sort (filter (wanted w path) listing))"
    if plain: "\<forall>e \<in> set listing. e = [] \<or> hd e \<noteq> CHR ''/''"
  proof -
    have "map (path_join path) xs = map ((@) ?pre) xs" if "set xs \<subseteq> set listing" for xs
      using that plain by (intro map_cong refl path_join_plain) auto
    from this [of "filter (wanted w path) listing"] this [of "sort (filter (wanted w path) listing)"]
    have a: "map (path_join path) (filter (wanted w path) listing)
               = map ((@) ?pre) (filter (wanted w path) listing)"
      and b: "map (path_join path) (sort (filter (wanted w path) listing))
               = map ((@) ?pre) (sort (filter (wanted w path) listing))"
      by auto
    show ?thesis
      unfolding a b by (rule sort_map_append)
  qed
  then show ?thesis
    by (simp add: f)
qed

text \<open>
  C5 as stated fails: for the directory \<^verbatim>\<open>ddl\<close> that holds \<^verbatim>\<open>b.sql\<close>, \<^verbatim>\<open>a.sql\<close> and
  \<^verbatim>\<open>c.txt\<close> the result is the list of the paths \<^verbatim>\<open>ddl/a.sql\<close> and \<^verbatim>\<open>ddl/b.sql\<close>, not of
  the names \<^verbatim>\<open>a.sql\<close> and \<^verbatim>\<open>b.sql\<close>.
\<close>

theorem find_ddl_files_counterexample:
  "fst (find_ddl_files (example_world []) ''ddl'') = [''ddl/a.sql'', ''ddl/b.sql'']
   \<and> fst (find_ddl_files (example_world []) ''ddl'') \<noteq> [''a.sql'', ''b.sql'']"
  by (simp add: find_ddl_files_def example_world_def path_join_def endswith_def)

theorem find_ddl_files_listing_witness:
  "listdir (example_world []) ''ddl'' = Inr [''b.sql'', ''a.sql'', ''c.txt'']
   \<and> find_ddl_files (example_world []) ''ddl'' = ([''ddl/a.sql'', ''ddl/b.sql''], example_world [])
   \<and> map (path_join ''ddl'') (sort (filter (wanted (example_world []) ''ddl'')
                                        [''b.sql'', ''a.sql'', ''c.txt'']))
       = [''ddl/a.sql'', ''ddl/b.sql'']"
proof -
  have l: "listdir (example_world []) ''ddl'' = Inr [''b.sql'', ''a.sql'', ''c.txt'']"
    by (simp add: example_world_def)
  have m: "map (path_join ''ddl'') (sort (filter (wanted (example_world []) ''ddl'')
                                              [''b.sql'', ''a.sql'', ''c.txt'']))
             = [''ddl/a.sql'', ''ddl/b.sql'']"
    by (simp add: wanted_def endswith_def path_join_def example_world_def)
  show ?thesis
    using l m find_ddl_files_listing [OF l]
    by (auto split: prod.splits)
qed

subsection \<open>A directory that cannot be listed\<close>

lemma length_split_once:
  "length (split_once sep s) = (if sep \<in> set s then 2 else 1)"
proof (cases "dropWhile (\<lambda>c. c \<noteq> sep) s")
  case Nil
  then have "sep \<notin> set s" by auto
  then show ?thesis unfolding split_once_def Nil by simp
next
  case (Cons a as)
  then have "sep \<in> set s"
    by (metis (mono_tags, lifting) dropWhile_eq_Nil_conv list.distinct(1))
  then show ?thesis unfolding split_once_def Cons by simp
qed

lemma init_world:
  "ProjectRepoHashes_init w pn rn gp u pw = (hs, w1) \<Longrightarrow>
     environ w1 = environ w \<and> collection w1 = collection w \<and> next_oid w1 = next_oid w
     \<and> listdir w1 = listdir w \<and> isfile w1 = isfile w \<and> read_text w1 = read_text w
     \<and> bq w1 = bq w \<and> executed w1 = executed w"
  by (auto simp add: ProjectRepoHashes_init_def utcnow_def Let_def logging_def
      split: option.splits)

lemma deploy_listing_fails:
  assumes "listdir w path = Inl strerror"
    and "environ w ''REPO_AND_OWNER_NAME'' = Some v" "CHR ''/'' \<in> set v"
  shows "\<exists>w' hs. deploy w gp path user password = (Returned, w', Some hs)
           \<and> executed w' = executed w \<and> collection w' = collection w
           \<and> last (logged w') = error_listing path strerror"
proof -
  let ?parts = "split_once CHR ''/'' v"
  obtain hs w1 where i: "ProjectRepoHashes_init w (?parts ! 0) (?parts ! 1) gp user password = (hs, w1)"
    by (cases "ProjectRepoHashes_init w (?parts ! 0) (?parts ! 1) gp user password")
  have l: "listdir w1 path = Inl strerror"
    using init_world [OF i] assms(1) by simp
  have "deploy w gp path user password
          = (Returned, logging ERROR ''Error listing DDL directory %s: %s'' [ArgS path, ArgS strerror] w1,
             Some hs)"
    using assms(2,3) i l
    by (simp add: deploy_def length_split_once find_ddl_files_def Let_def)
  then show ?thesis
    using init_world [OF i] by (simp add: logging_def error_listing_def)
qed

text \<open>
  C6. When the directory cannot be listed, the file locator logs the error and returns
  the empty list. A run of \<^verbatim>\<open>deploy\<close> that reaches the file locator (the repository
  setting is present and holds a slash) then returns with nothing executed and the
  collection unchanged, the error being the last record of the log; and so does
  \<^verbatim>\<open>main\<close> when its four settings are present: the process exits with status 0.
\<close>

theorem listing_failure_deploys_nothing:
  assumes "listdir w path = Inl strerror"
  shows "find_ddl_files w path = ([], w\<lparr>logged := logged w @ [error_listing path strerror]\<rparr>)
    \<and> (\<forall>v. environ w ''REPO_AND_OWNER_NAME'' = Some v \<and> CHR ''/'' \<in> set v \<longrightarrow>
          (case deploy w gp path user password of
             (out, w', hs) \<Rightarrow>
               out = Returned \<and> exit_status out = 0
               \<and> executed w' = executed w \<and> collection w' = collection w
               \<and> last (logged w') = error_listing path strerror)
          \<and> (configured w path \<longrightarrow>
               (case main w of
                  (out, w', hs) \<Rightarrow>
                    exit_status out = 0
                    \<and> executed w' = executed w \<and> collection w' = collection w
                    \<and> last (logged w') = error_listing path strerror)))"
proof -
  have a: "find_ddl_files w path = ([], w\<lparr>logged := logged w @ [error_listing path strerror]\<rparr>)"
    using assms by (simp add: find_ddl_files_def logging_def error_listing_def)
  have b: "case deploy w gp path user password of
             (out, w', hs) \<Rightarrow>
               out = Returned \<and> exit_status out = 0
               \<and> executed w' = executed w \<and> collection w' = collection w
               \<and> last (logged w') = error_listing path strerror"
    if "environ w ''REPO_AND_OWNER_NAME'' = Some v" "CHR ''/'' \<in> set v" for v gp user password
    using deploy_listing_fails [OF assms that, of gp user password] by auto
  have c: "case main w of
             (out, w', hs) \<Rightarrow>
               exit_status out = 0
               \<and> executed w' = executed w \<and> collection w' = collection w
               \<and> last (logged w') = error_listing path strerror"
    if "environ w ''REPO_AND_OWNER_NAME'' = Some v" "CHR ''/'' \<in> set v" "configured w path" for v
  proof -
    from that(3) obtain g u p where e: "environ w ''INPUT_GOOGLE_PROJECT_ID'' = Some g"
      "environ w ''INPUT_DDL_FOLDER_PATH'' = Some path"
      "environ w ''INPUT_HADOOP_MONGO_USER'' = Some u"
      "environ w ''INPUT_HADOOP_MONGO_PASSWORD'' = Some p"
      by (auto simp: configured_def)
    then have "main w = deploy w g path u p"
      by (simp add: main_def getenv_def)
    with b [OF that(1,2), of g u p] show ?thesis
      by (auto split: prod.splits)
  qed
  show ?thesis
  proof (intro conjI allI impI)
    show "find_ddl_files w path = ([], w\<lparr>logged := logged w @ [error_listing path strerror]\<rparr>)"
      by (rule a)
  next
    fix v
    assume "environ w ''REPO_AND_OWNER_NAME'' = Some v \<and> CHR ''/'' \<in> set v"
    then have v: "environ w ''REPO_AND_OWNER_NAME'' = Some v" "CHR ''/'' \<in> set v"
      by simp_all
    show "case deploy w gp path user password of
                 (out, w', hs) \<Rightarrow>
                   out = Returned \<and> exit_status out = 0
                   \<and> executed w' = executed w \<and> collection w' = collection w
                   \<and> last (logged w') = error_listing path strerror"
      by (rule b [OF v])
  next
    fix v
    assume "environ w ''REPO_AND_OWNER_NAME'' = Some v \<and> CHR ''/'' \<in> set v"
      and k: "configured w path"
    then have v: "environ w ''REPO_AND_OWNER_NAME'' = Some v" "CHR ''/'' \<in> set v"
      by simp_all
    show "case main w of
                 (out, w', hs) \<Rightarrow>
                   exit_status out = 0
                   \<and> executed w' = executed w \<and> collection w' = collection w
                   \<and> last (logged w') = error_listing path strerror"
      by (rule c [OF v k])
  qed
qed

theorem listing_failure_deploys_nothing_witness:
  "listdir missing_dir_world ''missing'' = Inl ''No such file or directory''
   \<and> environ missing_dir_world ''REPO_AND_OWNER_NAME'' = Some ''acme/ddl''
   \<and> CHR ''/'' \<in> set ''acme/ddl''
   \<and> configured missing_dir_world ''missing''
   \<and> fst (find_ddl_files missing_dir_world ''missing'') = []
   \<and> (case main missing_dir_world of
        (out, w', hs) \<Rightarrow>
          exit_status out = 0 \<and> executed w' = [] \<and> collection w' = []
          \<and> last (logged w') = error_listing ''missing'' ''No such file or directory'')"
proof -
  have l: "listdir missing_dir_world ''missing'' = Inl ''No such file or directory''"
    by (simp add: missing_dir_world_def example_world_def)
  have v: "environ missing_dir_world ''REPO_AND_OWNER_NAME'' = Some ''acme/ddl''
           \<and> CHR ''/'' \<in> set ''acme/ddl''"
    by (simp add: missing_dir_world_def example_world_def)
  have k: "configured missing_dir_world ''missing''"
    by (simp add: configured_def missing_dir_world_def example_world_def)
  have z: "executed missing_dir_world = []" "collection missing_dir_world = []"
    by (simp_all add: missing_dir_world_def example_world_def)
  note t = listing_failure_deploys_nothing [OF l, where gp = "''warehouse''" and user = "''user''"
      and password = "''secret''"]
  from t have f: "fst (find_ddl_files missing_dir_world ''missing'') = []"
    by simp
  from t have "\<forall>v. environ missing_dir_world ''REPO_AND_OWNER_NAME'' = Some v \<and> CHR ''/'' \<in> set v
      \<longrightarrow> (configured missing_dir_world ''missing'' \<longrightarrow>
            (case main missing_dir_world of
               (out, w', hs) \<Rightarrow>
                 exit_status out = 0
                 \<and> executed w' = executed missing_dir_world
                 \<and> collection w' = collection missing_dir_world
                 \<and> last (logged w') = error_listing ''missing'' ''No such file or directory''))"
    by simp
  from this [rule_format, OF v k] have
    "case main missing_dir_world of
       (out, w', hs) \<Rightarrow>
         exit_status out = 0
         \<and> executed w' = executed missing_dir_world
         \<and> collection w' = collection missing_dir_world
         \<and> last (logged w') = error_listing ''missing'' ''No such file or directory''" .
  then show ?thesis
    using l v k f by (simp add: z)
qed

subsection \<open>The loop, file by file\<close>

lemma deploy_files_skip:
  "get_sql w f = Inr sql \<Longrightarrow> matches_saved_hash hs f sql \<Longrightarrow>
     deploy_files gp (f # rest) (w, hs) = deploy_files gp rest (w, hs)"
  by simp

lemma deploy_files_fail:
  "get_sql w f = Inr sql \<Longrightarrow> \<not> matches_saved_hash hs f sql \<Longrightarrow>
   execute_sql w sql gp = (Inl (CalledProcessError rc out err), w2) \<Longrightarrow>
     deploy_files gp (f # rest) (w, hs)
       = (SysExit 3, w2\<lparr>logged := logged w2 @ exit_log f rc out err\<rparr>, hs)"
  by (simp add: logging_def exit_log_def)

lemma deploy_files_deployed:
  "get_sql w f = Inr sql \<Longrightarrow> \<not> matches_saved_hash hs f sql \<Longrightarrow>
   execute_sql w sql gp = (Inr u, w1) \<Longrightarrow>
   update_saved_hash hs f sql (clk w1) = (hs1, c1) \<Longrightarrow>
   save hs1 (w1\<lparr>clk := c1\<rparr>) = (hs2, w2) \<Longrightarrow>
     deploy_files gp (f # rest) (w, hs) = deploy_files gp rest (w2, hs2)"
  by simp

text \<open>How one file can let the loop go on.\<close>

lemma deploy_files_Cons_Returned:
  assumes "deploy_files gp (f # rest) (w, hs) = (Returned, w', hs')"
  obtains (skipped) sql where "get_sql w f = Inr sql" "matches_saved_hash hs f sql"
      "deploy_files gp rest (w, hs) = (Returned, w', hs')"
  | (deployed) sql u w1 hs1 c1 hs2 w2 where "get_sql w f = Inr sql"
      "\<not> matches_saved_hash hs f sql" "execute_sql w sql gp = (Inr u, w1)"
      "update_saved_hash hs f sql (clk w1) = (hs1, c1)"
      "save hs1 (w1\<lparr>clk := c1\<rparr>) = (hs2, w2)"
      "deploy_files gp rest (w2, hs2) = (Returned, w', hs')"
proof (cases "get_sql w f")
  case (Inl msg)
  with assms show ?thesis by simp
next
  case (Inr sql)
  show ?thesis
  proof (cases "matches_saved_hash hs f sql")
    case True
    with Inr assms skipped show ?thesis by simp
  next
    case False
    obtain res w1 where e: "execute_sql w sql gp = (res, w1)"
      by (cases "execute_sql w sql gp")
    show ?thesis
    proof (cases res)
      case (Inl x)
      with Inr False e assms show ?thesis by (cases x) simp_all
    next
      case (Inr u)
      obtain hs1 c1 where up: "update_saved_hash hs f sql (clk w1) = (hs1, c1)"
        by (cases "update_saved_hash hs f sql (clk w1)")
      obtain hs2 w2 where sv: "save hs1 (w1\<lparr>clk := c1\<rparr>) = (hs2, w2)"
        by (cases "save hs1 (w1\<lparr>clk := c1\<rparr>)")
      from \<open>get_sql w f = Inr sql\<close> False e Inr up sv assms
      have "deploy_files gp rest (w2, hs2) = (Returned, w', hs')" by simp
      with \<open>get_sql w f = Inr sql\<close> False e Inr up sv deployed show ?thesis by blast
    qed
  qed
qed

lemma deploy_files_append:
  "deploy_files gp xs s = (Returned, s') \<Longrightarrow>
     deploy_files gp (xs @ ys) s = deploy_files gp ys s'"
proof (induction xs arbitrary: s)
  case Nil
  then show ?case by (cases s) simp
next
  case (Cons f xs)
  obtain w hs where s: "s = (w, hs)" by (cases s)
  obtain w' hs' where s': "s' = (w', hs')" by (cases s')
  from Cons.prems have r: "deploy_files gp (f # xs) (w, hs) = (Returned, w', hs')"
    by (simp add: s s')
  then show ?case
  proof (cases rule: deploy_files_Cons_Returned)
    case (skipped sql)
    with Cons.IH [of "(w, hs)"] show ?thesis
      by (simp add: s s')
  next
    case (deployed sql u w1 hs1 c1 hs2 w2)
    with Cons.IH [of "(w2, hs2)"] show ?thesis
      by (simp add: s s')
  qed
qed

text \<open>
  C3. When the loop reaches a file whose content matches the stored fingerprint, the
  file leaves the world (the commands executed, the collection, the clock) and the
  hash store exactly as they were, and the loop goes on with the next file.
\<close>

theorem unchanged_file_skipped:
  assumes "deploy_files gp pre (w, hs) = (Returned, w1, hs1)"
    and "get_sql w1 f = Inr sql"
    and "matches_saved_hash hs1 f sql"
  shows "deploy_files gp [f] (w1, hs1) = (Returned, w1, hs1)
         \<and> deploy_files gp (pre @ f # post) (w, hs) = deploy_files gp post (w1, hs1)"
  using deploy_files_append [OF assms(1), of "f # post"] deploy_files_skip [OF assms(2,3)]
  by simp

theorem unchanged_file_skipped_witness:
  "deploy_files ''warehouse'' [] (example_world [], example_store)
     = (Returned, example_world [], example_store)
   \<and> get_sql (example_world []) ''ddl/x.sql'' = Inr ''SELECT 1;''
   \<and> matches_saved_hash example_store ''ddl/x.sql'' ''SELECT 1;''
   \<and> deploy_files ''warehouse'' [''ddl/x.sql''] (example_world [], example_store)
       = (Returned, example_world [], example_store)
   \<and> deploy_files ''warehouse'' [''ddl/x.sql'', ''ddl/b.sql''] (example_world [], example_store)
       = deploy_files ''warehouse'' [''ddl/b.sql''] (example_world [], example_store)"
proof -
  have pre: "deploy_files ''warehouse'' [] (example_world [], example_store)
               = (Returned, example_world [], example_store)"
    by simp
  have sql: "get_sql (example_world []) ''ddl/x.sql'' = Inr ''SELECT 1;''"
    by (simp add: get_sql_def example_world_def)
  have same: "matches_saved_hash example_store ''ddl/x.sql'' ''SELECT 1;''"
    by (simp add: matches_saved_hash_def get_file_hash_def example_store_def x_entry_def)
  show ?thesis
    using pre sql same
      unchanged_file_skipped [OF pre sql same, where post = "[]"]
      unchanged_file_skipped [OF pre sql same, where post = "[''ddl/b.sql'']"]
    by simp
qed

subsection \<open>What the loop has stored when an execution fails\<close>

lemma execute_sql_world:
  "execute_sql w sql gp = (res, w1) \<Longrightarrow> w1 = w\<lparr>executed := executed w @ [(bq_cmd gp, sql)]\<rparr>"
  by (auto simp add: execute_sql_def Let_def split: proc.splits if_splits)

lemma find_replace_one:
  "find (\<lambda>x. oid x = Some i) coll \<noteq> None \<Longrightarrow> oid d = Some i \<Longrightarrow>
     find (\<lambda>x. oid x = Some i) (replace_one i d coll) = Some d"
  by (induction coll) auto

lemma oid_replace_one:
  "x \<in> set (replace_one i d coll) \<Longrightarrow> x = d \<or> x \<in> set coll"
  by (induction coll) (auto split: if_splits)

lemma find_append_fresh:
  "\<forall>x \<in> set coll. oid x \<noteq> Some i \<Longrightarrow> oid d = Some i \<Longrightarrow>
     find (\<lambda>x. oid x = Some i) (coll @ [d]) = Some d"
  by (induction coll) auto

lemma stored_oid: "stored w i = Some d \<Longrightarrow> d \<in> set (collection w) \<and> oid d = Some i"
  by (auto simp add: stored_def find_Some_iff)

lemma save_result:
  assumes "oids_fresh w" "attached w hs" "save hs w = (hs', w')"
  shows "oids_fresh w' \<and> synced w' hs' \<and> heap hs' = heap hs \<and> filesdict hs' = filesdict hs
         \<and> files (hashes hs') = files (hashes hs) \<and> read_text w' = read_text w"
proof (cases "oid (hashes hs)")
  case None
  let ?i = "next_oid w"
  let ?hs1 = "hs\<lparr>hashes := (hashes hs)\<lparr>oid := Some ?i\<rparr>\<rparr>"
  from None assms(3) have r: "hs' = ?hs1"
    "w' = w\<lparr>collection := collection w @ [snapshot ?hs1], next_oid := Suc ?i\<rparr>"
    by (auto simp add: save_def Let_def)
  have o: "oid (snapshot ?hs1) = Some ?i"
    by (simp add: snapshot_def with_files_def)
  have "\<forall>x \<in> set (collection w). oid x \<noteq> Some ?i"
    using assms(1) by (auto simp: oids_fresh_def)
  from find_append_fresh [OF this o] have "stored w' ?i = Some (snapshot hs')"
    by (simp add: stored_def r)
  moreover have "oids_fresh w'"
    using assms(1) o by (auto simp add: oids_fresh_def r less_Suc_eq)
  ultimately show ?thesis
    by (auto simp add: synced_def r)
next
  case (Some i)
  with assms(3) have r: "hs' = hs" "w' = w\<lparr>collection := replace_one i (snapshot hs) (collection w)\<rparr>"
    by (auto simp add: save_def)
  have o: "oid (snapshot hs) = Some i"
    using Some by (simp add: snapshot_def with_files_def)
  have ex: "find (\<lambda>x. oid x = Some i) (collection w) \<noteq> None"
    using assms(2) Some by (simp add: attached_def stored_def)
  from find_replace_one [OF ex o] have "stored w' i = Some (snapshot hs')"
    by (simp add: stored_def r)
  moreover have "oids_fresh w'"
  proof -
    from ex obtain d0 where "stored w i = Some d0" by (auto simp: stored_def)
    then have "d0 \<in> set (collection w)" "oid d0 = Some i" by (simp_all add: stored_oid)
    with assms(1) have "i < next_oid w" by (auto simp: oids_fresh_def)
    with assms(1) o show ?thesis
      by (auto simp add: oids_fresh_def r dest!: oid_replace_one)
  qed
  ultimately show ?thesis
    using Some by (auto simp add: synced_def r)
qed

lemma synced_attached: "synced w hs \<Longrightarrow> attached w hs"
  by (auto simp: synced_def attached_def)

lemma update_other:
  assumes "dict_ok hs" "g \<noteq> f" "filesdict hs g = Some r"
  shows "filesdict (fst (update_saved_hash hs f sql c)) g = Some r
         \<and> heap (fst (update_saved_hash hs f sql c)) r = heap hs r"
proof (cases "filesdict hs f")
  case None
  have "r \<in> set (files (hashes hs))" using assms(1,3) by (simp add: dict_ok_def)
  then have "r \<noteq> new_ref (files (hashes hs))" using new_ref_fresh by metis
  with None assms(2,3) show ?thesis
    by (simp add: update_saved_hash_def utcnow_def Let_def)
next
  case (Some r')
  have "file_name (heap hs r) = g" "file_name (heap hs r') = f"
    using assms(1,3) Some by (simp_all add: dict_ok_def)
  with assms(2) have "r \<noteq> r'" by auto
  with Some assms(3) show ?thesis
    by (simp add: update_saved_hash_def utcnow_def Let_def)
qed

lemma update_oid:
  "oid (hashes (fst (update_saved_hash hs f sql c))) = oid (hashes hs)"
  by (simp add: update_saved_hash_def utcnow_def Let_def split: option.splits)

lemma dict_ok_cong:
  "heap hs' = heap hs \<Longrightarrow> filesdict hs' = filesdict hs \<Longrightarrow>
   files (hashes hs') = files (hashes hs) \<Longrightarrow> dict_ok hs' = dict_ok hs"
  by (simp add: dict_ok_def)

lemma get_file_hash_cong:
  "heap hs' = heap hs \<Longrightarrow> filesdict hs' = filesdict hs \<Longrightarrow>
   get_file_hash hs' g = get_file_hash hs g"
  by (simp add: get_file_hash_def split: option.splits)

text \<open>What a file that is executed and saved leaves behind.\<close>

lemma deployed_step:
  assumes c: "consistent w hs"
    and e: "execute_sql w sql gp = (Inr u, w1)"
    and up: "update_saved_hash hs f sql (clk w1) = (hs1, c1)"
    and sv: "save hs1 (w1\<lparr>clk := c1\<rparr>) = (hs2, w2)"
  shows "consistent w2 hs2 \<and> synced w2 hs2 \<and> read_text w2 = read_text w
         \<and> filesdict hs2 f \<noteq> None \<and> get_file_hash hs2 f = md5_hexdigest sql
         \<and> (\<forall>g. g \<noteq> f \<and> filesdict hs g \<noteq> None \<longrightarrow>
               filesdict hs2 g \<noteq> None \<and> get_file_hash hs2 g = get_file_hash hs g)"
proof -
  let ?w = "w1\<lparr>clk := c1\<rparr>"
  have w1: "w1 = w\<lparr>executed := executed w @ [(bq_cmd gp, sql)]\<rparr>"
    using execute_sql_world [OF e] .
  have hs1: "hs1 = fst (update_saved_hash hs f sql (clk w1))"
    using up by simp
  have f1: "oids_fresh ?w"
    using c by (simp add: consistent_def oids_fresh_def w1)
  have a1: "attached ?w hs1"
    using c update_oid [of hs f sql "clk w1"]
    by (simp add: consistent_def attached_def stored_def w1 hs1)
  have d1: "dict_ok hs1"
    using c dict_ok_update [of hs f sql "clk w1"] by (simp add: consistent_def hs1)
  note s = save_result [OF f1 a1 sv]
  have d2: "dict_ok hs2"
    using s d1 dict_ok_cong [of hs2 hs1] by simp
  have m: "filesdict hs1 f \<noteq> None \<and> get_file_hash hs1 f = md5_hexdigest sql"
    unfolding hs1
    by (simp add: update_saved_hash_def get_file_hash_def utcnow_def Let_def split: option.splits)
  have o: "filesdict hs1 g \<noteq> None \<and> get_file_hash hs1 g = get_file_hash hs g"
    if "g \<noteq> f" "filesdict hs g \<noteq> None" for g
  proof -
    from that(2) obtain r where r: "filesdict hs g = Some r" by auto
    from c have "dict_ok hs" by (simp add: consistent_def)
    from update_other [OF this that(1) r, of sql "clk w1"] r show ?thesis
      by (simp add: get_file_hash_def hs1)
  qed
  have "consistent w2 hs2"
    using s d2 synced_attached by (simp add: consistent_def)
  moreover have "read_text w2 = read_text w"
    using s by (simp add: w1)
  moreover have "filesdict hs2 f \<noteq> None \<and> get_file_hash hs2 f = md5_hexdigest sql"
    using s m get_file_hash_cong [of hs2 hs1 f] by simp
  moreover have "\<forall>g. g \<noteq> f \<and> filesdict hs g \<noteq> None \<longrightarrow>
               filesdict hs2 g \<noteq> None \<and> get_file_hash hs2 g = get_file_hash hs g"
    using s o get_file_hash_cong [of hs2 hs1] by simp
  ultimately show ?thesis
    using s by simp
qed

lemma run_consistent:
  "consistent w hs \<Longrightarrow> deploy_files gp fs (w, hs) = (Returned, w', hs') \<Longrightarrow>
     consistent w' hs' \<and> read_text w' = read_text w"
proof (induction fs arbitrary: w hs)
  case Nil
  then show ?case by simp
next
  case (Cons f fs)
  from Cons.prems(2) show ?case
  proof (cases rule: deploy_files_Cons_Returned)
    case (skipped sql)
    with Cons.IH [OF Cons.prems(1)] show ?thesis by simp
  next
    case (deployed sql u w1 hs1 c1 hs2 w2)
    from deployed_step [OF Cons.prems(1) deployed(3,4,5)]
    have "consistent w2 hs2" "read_text w2 = read_text w" by simp_all
    with Cons.IH [OF this(1) deployed(6)] show ?thesis by simp
  qed
qed

text \<open>
  Once a file's fingerprint is in memory and the record is stored, the rest of the
  loop keeps both: the file is skipped if it comes again, and another file's update
  does not touch its entry.
\<close>

lemma run_keeps:
  assumes "consistent w hs" "synced w hs"
    and "filesdict hs g \<noteq> None" "get_file_hash hs g = md5_hexdigest sq"
    and "get_sql w g = Inr sq"
    and "deploy_files gp fs (w, hs) = (Returned, w', hs')"
  shows "synced w' hs' \<and> filesdict hs' g \<noteq> None \<and> get_file_hash hs' g = md5_hexdigest sq"
  using assms
proof (induction fs arbitrary: w hs)
  case Nil
  then show ?case by simp
next
  case (Cons f fs)
  from Cons.prems(6) show ?case
  proof (cases rule: deploy_files_Cons_Returned)
    case (skipped sql)
    with Cons.IH [OF Cons.prems(1-5)] show ?thesis by simp
  next
    case (deployed sql u w1 hs1 c1 hs2 w2)
    have "g \<noteq> f"
    proof
      assume "g = f"
      with deployed(1) Cons.prems(5) have "sql = sq" by simp
      with \<open>g = f\<close> Cons.prems(4) deployed(2) show False
        by (simp add: matches_saved_hash_def)
    qed
    note st = deployed_step [OF Cons.prems(1) deployed(3,4,5)]
    have "get_sql w2 g = Inr sq"
      using st Cons.prems(5) by (simp add: get_sql_def)
    moreover have "filesdict hs2 g \<noteq> None" "get_file_hash hs2 g = md5_hexdigest sq"
      using st \<open>g \<noteq> f\<close> Cons.prems(3,4) by simp_all
    ultimately show ?thesis
      using Cons.IH [of w2 hs2] st deployed(6) by simp
  qed
qed

lemma synced_persisted:
  assumes "synced w hs" "dict_ok hs" "filesdict hs g \<noteq> None"
  shows "persisted w hs g (get_file_hash hs g)"
proof -
  from assms(3) obtain r where r: "filesdict hs g = Some r" by auto
  with assms(2) have "r \<in> set (files (hashes hs))" "file_name (heap hs r) = g"
    by (simp_all add: dict_ok_def)
  then have "\<exists>e \<in> set (files (snapshot hs)). file_name e = g \<and> file_hash e = file_hash (heap hs r)"
    by (auto simp add: snapshot_def with_files_def)
  with assms(1) r show ?thesis
    by (auto simp add: synced_def persisted_def get_file_hash_def list_ex_iff)
qed

lemma executed_file_persisted:
  assumes c: "consistent w hs"
    and run: "deploy_files gp (p1 @ g # p2) (w, hs) = (Returned, w1, hs1)"
    and p1: "deploy_files gp p1 (w, hs) = (Returned, wa, ha)"
    and sq: "get_sql wa g = Inr sq"
    and diff: "\<not> matches_saved_hash ha g sq"
  shows "persisted w1 hs1 g (md5_hexdigest sq)"
proof -
  from deploy_files_append [OF p1, of "g # p2"] run
  have r: "deploy_files gp (g # p2) (wa, ha) = (Returned, w1, hs1)" by simp
  from run_consistent [OF c p1] have ca: "consistent wa ha" by simp
  from r show ?thesis
  proof (cases rule: deploy_files_Cons_Returned)
    case (skipped sql)
    with sq diff show ?thesis by simp
  next
    case (deployed sql u wb hb cb hs2 w2)
    with sq have [simp]: "sql = sq" by simp
    note st = deployed_step [OF ca deployed(3,4,5)]
    have "get_sql w2 g = Inr sq"
      using st sq by (simp add: get_sql_def)
    with run_keeps [of w2 hs2 g sq gp p2 w1 hs1] st deployed(6)
    have k: "synced w1 hs1" "filesdict hs1 g \<noteq> None" "get_file_hash hs1 g = md5_hexdigest sq"
      by simp_all
    from run_consistent [of w2 hs2 gp p2 w1 hs1] st deployed(6)
    have "dict_ok hs1" by (simp add: consistent_def)
    from synced_persisted [OF k(1) this k(2)] k(3) show ?thesis by simp
  qed
qed

lemma stored_cong: "collection w' = collection w \<Longrightarrow> stored w' = stored w"
  by (rule ext) (simp add: stored_def)

lemma persisted_cong:
  assumes "collection w' = collection w"
  shows "persisted w' hs g h = persisted w hs g h"
  unfolding persisted_def stored_cong [OF assms] ..

text \<open>
  The constructor leaves a consistent pair, when the collection's \<^verbatim>\<open>_id\<close>s are fresh.
\<close>

lemma init_consistent:
  assumes "oids_fresh w" "ProjectRepoHashes_init w pn rn gp u pw = (hs, w1)"
  shows "consistent w1 hs"
proof -
  have w1: "collection w1 = collection w" "next_oid w1 = next_oid w"
    using init_world [OF assms(2)] by simp_all
  have hs: "hs = fst (ProjectRepoHashes_init w pn rn gp u pw)"
    using assms(2) by simp
  have "oids_fresh w1"
    using assms(1) by (simp add: oids_fresh_def w1)
  moreover have "dict_ok hs"
    unfolding hs by (rule init_dict_ok)
  moreover have "attached w1 hs"
  proof (cases "get_hashes (collection w) pn rn gp")
    case None
    then show ?thesis
      by (simp add: hs attached_def ProjectRepoHashes_init_def utcnow_def Let_def)
  next
    case (Some d)
    then have "d \<in> set (collection w)"
      by (auto simp add: get_hashes_def find_Some_iff)
    then have "oid d = Some i \<Longrightarrow> find (\<lambda>x. oid x = Some i) (collection w) \<noteq> None" for i
      by (auto simp add: find_None_iff)
    with Some show ?thesis
      by (simp add: hs attached_def stored_def w1 ProjectRepoHashes_init_def utcnow_def Let_def
          with_files_def)
  qed
  ultimately show ?thesis
    by (simp add: consistent_def)
qed

text \<open>The run of the example, evaluated.\<close>

lemma not_empty_md5 [simp]: "[] \<noteq> md5_hexdigest s" "md5_hexdigest s \<noteq> []"
  using md5_hexdigest_not_empty [of s] by auto

lemma after_a_Returned: "fst after_a = Returned"
  by (simp add: after_a_def example_world_def empty_store_def get_sql_def matches_saved_hash_def
      get_file_hash_def execute_sql_def bq_cmd_def update_saved_hash_def utcnow_def save_def
      Let_def split: prod.splits)

lemma after_a_world:
  "read_text (fst (snd after_a)) = read_text (example_world [])"
  "bq (fst (snd after_a)) = bq (example_world [])"
  by (simp_all add: after_a_def example_world_def empty_store_def get_sql_def matches_saved_hash_def
      get_file_hash_def execute_sql_def bq_cmd_def update_saved_hash_def utcnow_def save_def
      Let_def split: prod.splits)

lemma after_a_store:
  "filesdict (snd (snd after_a)) ''ddl/b.sql'' = None"
  by (simp add: after_a_def example_world_def empty_store_def get_sql_def matches_saved_hash_def
      get_file_hash_def execute_sql_def bq_cmd_def update_saved_hash_def utcnow_def save_def
      Let_def split: prod.splits)

text \<open>
  C2. When the files before \<open>f\<close> let the loop go on and the execution of \<open>f\<close> raises
  \<^verbatim>\<open>CalledProcessError\<close>, the loop ends with \<^verbatim>\<open>sys.exit(3)\<close> whatever files follow (a
  status that neither a normal return nor an uncaught exception gives): the command
  of \<open>f\<close> is the last one executed, the hash store in memory, the collection
  and the clock are as they were before \<open>f\<close>, and only the log grows. Every file before
  \<open>f\<close> that was executed has the fingerprint of its content in the stored document
  (in a world where an \<^verbatim>\<open>_id\<close> is never handed out twice, from a hash store whose
  record, when it carries an \<^verbatim>\<open>_id\<close>, is in the collection).
\<close>

theorem failed_execution_stops_the_run:
  assumes pre: "deploy_files gp pre (w, hs) = (Returned, w1, hs1)"
    and sql: "get_sql w1 f = Inr sql"
    and diff: "\<not> matches_saved_hash hs1 f sql"
    and fail: "execute_sql w1 sql gp = (Inl (CalledProcessError rc out err), w2)"
  shows "deploy_files gp (pre @ f # post) (w, hs)
           = (SysExit 3, w2\<lparr>logged := logged w2 @ exit_log f rc out err\<rparr>, hs1)
         \<and> exit_status (fst (deploy_files gp (pre @ f # post) (w, hs))) = 3
         \<and> exit_status Returned \<noteq> 3 \<and> exit_status (Uncaught e) \<noteq> 3
         \<and> executed w2 = executed w1 @ [(bq_cmd gp, sql)]
         \<and> collection w2 = collection w1 \<and> next_oid w2 = next_oid w1 \<and> clk w2 = clk w1
         \<and> (consistent w hs \<longrightarrow>
              (\<forall>p1 g p2 wa ha sq.
                 pre = p1 @ g # p2 \<and> deploy_files gp p1 (w, hs) = (Returned, wa, ha)
                 \<and> get_sql wa g = Inr sq \<and> \<not> matches_saved_hash ha g sq
                 \<longrightarrow> persisted (w2\<lparr>logged := logged w2 @ exit_log f rc out err\<rparr>) hs1 g
                       (md5_hexdigest sq)))"
proof -
  have r: "deploy_files gp (pre @ f # post) (w, hs)
             = (SysExit 3, w2\<lparr>logged := logged w2 @ exit_log f rc out err\<rparr>, hs1)"
    using deploy_files_append [OF pre, of "f # post"] deploy_files_fail [OF sql diff fail]
    by simp
  have w2: "w2 = w1\<lparr>executed := executed w1 @ [(bq_cmd gp, sql)]\<rparr>"
    using execute_sql_world [OF fail] .
  have "persisted (w2\<lparr>logged := logged w2 @ exit_log f rc out err\<rparr>) hs1 g (md5_hexdigest sq)"
    if "consistent w hs" "pre = p1 @ g # p2" "deploy_files gp p1 (w, hs) = (Returned, wa, ha)"
      "get_sql wa g = Inr sq" "\<not> matches_saved_hash ha g sq" for p1 g p2 wa ha sq
  proof -
    from pre that(2) have "deploy_files gp (p1 @ g # p2) (w, hs) = (Returned, w1, hs1)"
      by simp
    from executed_file_persisted [OF that(1) this that(3,4,5)]
    have "persisted w1 hs1 g (md5_hexdigest sq)" .
    moreover have c: "collection (w2\<lparr>logged := logged w2 @ exit_log f rc out err\<rparr>) = collection w1"
      by (simp add: w2)
    ultimately show ?thesis
      by (simp only: persisted_cong [OF c])
  qed
  then have k: "consistent w hs \<longrightarrow>
              (\<forall>p1 g p2 wa ha sq.
                 pre = p1 @ g # p2 \<and> deploy_files gp p1 (w, hs) = (Returned, wa, ha)
                 \<and> get_sql wa g = Inr sq \<and> \<not> matches_saved_hash ha g sq
                 \<longrightarrow> persisted (w2\<lparr>logged := logged w2 @ exit_log f rc out err\<rparr>) hs1 g
                       (md5_hexdigest sq))"
    by blast
  show ?thesis
  proof (intro conjI)
    show "deploy_files gp (pre @ f # post) (w, hs)
            = (SysExit 3, w2\<lparr>logged := logged w2 @ exit_log f rc out err\<rparr>, hs1)"
      by (rule r)
    show "exit_status (fst (deploy_files gp (pre @ f # post) (w, hs))) = 3"
      by (simp only: r fst_conv exit_status.simps)
    show "exit_status Returned \<noteq> 3" "exit_status (Uncaught e) \<noteq> 3"
      by simp_all
    show "executed w2 = executed w1 @ [(bq_cmd gp, sql)]" "collection w2 = collection w1"
      "next_oid w2 = next_oid w1" "clk w2 = clk w1"
      by (simp_all add: w2)
    show "consistent w hs \<longrightarrow>
              (\<forall>p1 g p2 wa ha sq.
                 pre = p1 @ g # p2 \<and> deploy_files gp p1 (w, hs) = (Returned, wa, ha)
                 \<and> get_sql wa g = Inr sq \<and> \<not> matches_saved_hash ha g sq
                 \<longrightarrow> persisted (w2\<lparr>logged := logged w2 @ exit_log f rc out err\<rparr>) hs1 g
                       (md5_hexdigest sq))"
      by (rule k)
  qed
qed

theorem failed_execution_stops_the_run_witness:
  "fst after_a = Returned
   \<and> get_sql (fst (snd after_a)) ''ddl/b.sql'' = Inr ''SELEC 2;''
   \<and> matches_saved_hash (snd (snd after_a)) ''ddl/b.sql'' ''SELEC 2;'' = False
   \<and> fst (execute_sql (fst (snd after_a)) ''SELEC 2;'' ''warehouse'')
        = Inl (CalledProcessError 1 [] ''Syntax error'')
   \<and> consistent (example_world []) empty_store
   \<and> get_sql (example_world []) ''ddl/a.sql'' = Inr ''SELECT 1;''
   \<and> matches_saved_hash empty_store ''ddl/a.sql'' ''SELECT 1;'' = False
   \<and> (case deploy_files ''warehouse'' [''ddl/a.sql'', ''ddl/b.sql'', ''ddl/c.sql'']
              (example_world [], empty_store) of
        (out, w', hs') \<Rightarrow>
          out = SysExit 3 \<and> exit_status out = 3
          \<and> hs' = snd (snd after_a)
          \<and> collection w' = collection (fst (snd after_a))
          \<and> executed w' = executed (fst (snd after_a)) @ [(bq_cmd ''warehouse'', ''SELEC 2;'')]
          \<and> persisted w' hs' ''ddl/a.sql'' (md5_hexdigest ''SELECT 1;''))"
proof -
  let ?w1 = "fst (snd after_a)" and ?hs1 = "snd (snd after_a)"
  let ?x = "execute_sql ?w1 ''SELEC 2;'' ''warehouse''"
  have pre: "deploy_files ''warehouse'' [''ddl/a.sql''] (example_world [], empty_store)
               = (Returned, ?w1, ?hs1)"
    using after_a_Returned by (simp add: after_a_def prod_eq_iff)
  have sql: "get_sql ?w1 ''ddl/b.sql'' = Inr ''SELEC 2;''"
    by (simp add: get_sql_def after_a_world) (simp add: example_world_def)
  have diff: "\<not> matches_saved_hash ?hs1 ''ddl/b.sql'' ''SELEC 2;''"
    by (simp add: matches_saved_hash_def get_file_hash_def after_a_store)
  have x: "fst ?x = Inl (CalledProcessError 1 [] ''Syntax error'')"
    by (simp add: execute_sql_def after_a_world Let_def) (simp add: example_world_def)
  then have fail: "?x = (Inl (CalledProcessError 1 [] ''Syntax error''), snd ?x)"
    by (simp add: prod_eq_iff)
  have c: "consistent (example_world []) empty_store"
    by (simp add: consistent_def oids_fresh_def attached_def dict_ok_def example_world_def
        empty_store_def)
  have a: "get_sql (example_world []) ''ddl/a.sql'' = Inr ''SELECT 1;''"
    by (simp add: get_sql_def example_world_def)
  have na: "\<not> matches_saved_hash empty_store ''ddl/a.sql'' ''SELECT 1;''"
    by (simp add: matches_saved_hash_def get_file_hash_def empty_store_def)
  note t = failed_execution_stops_the_run [OF pre sql diff fail, where post = "[''ddl/c.sql'']"
      and e = IndexError]
  from t have r: "deploy_files ''warehouse'' ([''ddl/a.sql''] @ ''ddl/b.sql'' # [''ddl/c.sql''])
                    (example_world [], empty_store)
      = (SysExit 3,
         (snd ?x)\<lparr>logged := logged (snd ?x) @ exit_log ''ddl/b.sql'' 1 [] ''Syntax error''\<rparr>, ?hs1)"
    by (rule conjunct1)
  from t have e: "executed (snd ?x) = executed ?w1 @ [(bq_cmd ''warehouse'', ''SELEC 2;'')]"
    "collection (snd ?x) = collection ?w1"
    by simp_all
  from t c
  have "\<forall>p1 g p2 wa ha sq.
          [''ddl/a.sql''] = p1 @ g # p2
          \<and> deploy_files ''warehouse'' p1 (example_world [], empty_store) = (Returned, wa, ha)
          \<and> get_sql wa g = Inr sq \<and> \<not> matches_saved_hash ha g sq
          \<longrightarrow> persisted ((snd ?x)\<lparr>logged := logged (snd ?x)
                              @ exit_log ''ddl/b.sql'' 1 [] ''Syntax error''\<rparr>) ?hs1 g
                (md5_hexdigest sq)"
    by blast
  from this [rule_format, of "[]" "''ddl/a.sql''" "[]" "example_world []" empty_store "''SELECT 1;''"]
    a na
  have p: "persisted ((snd ?x)\<lparr>logged := logged (snd ?x)
                        @ exit_log ''ddl/b.sql'' 1 [] ''Syntax error''\<rparr>) ?hs1 ''ddl/a.sql''
             (md5_hexdigest ''SELECT 1;'')"
    by simp
  from r have r': "deploy_files ''warehouse'' [''ddl/a.sql'', ''ddl/b.sql'', ''ddl/c.sql'']
                    (example_world [], empty_store)
      = (SysExit 3,
         (snd ?x)\<lparr>logged := logged (snd ?x) @ exit_log ''ddl/b.sql'' 1 [] ''Syntax error''\<rparr>, ?hs1)"
    by simp
  show ?thesis
    unfolding r' using after_a_Returned sql diff x c a na e p by simp
qed


subsection \<open>The whole program on the example\<close>

text \<open>
  \<^verbatim>\<open>main\<close> in the example world, from the empty collection: \<^verbatim>\<open>ddl/a.sql\<close> is executed
  and its fingerprint stored, \<^verbatim>\<open>ddl/b.sql\<close> is executed and fails, and the process exits
  with status 3; the stored record holds the one entry of \<^verbatim>\<open>ddl/a.sql\<close>.
\<close>

lemma main_example:
  "(case main (example_world []) of
      (out, w', hs) \<Rightarrow>
        exit_status out = 3
        \<and> map fst (executed w') = [bq_cmd ''warehouse'', bq_cmd ''warehouse'']
        \<and> map snd (executed w') = [''SELECT 1;'', ''SELEC 2;'']
        \<and> map (\<lambda>d. map file_name (files d)) (collection w') = [[''ddl/a.sql'']]
        \<and> map (\<lambda>d. map file_hash (files d)) (collection w') = [[md5_hexdigest ''SELECT 1;'']])"
  by (simp add: main_def getenv_def deploy_def split_once_def ProjectRepoHashes_init_def
      get_hashes_def find_ddl_files_def path_join_def endswith_def logging_def
      example_world_def example_clock_def get_sql_def matches_saved_hash_def
      get_file_hash_def execute_sql_def update_saved_hash_def utcnow_def save_def
      snapshot_def with_files_def new_ref_def
      Let_def split: prod.splits)

end
